theory Spec2Isabelle
  imports Main
begin

section \<open>Python strings\<close>

text \<open>
  A Python \<open>str\<close> is a sequence of Unicode code points.  The grammar of the log lines
  mentions the en dash (U+2013) and the classes \<open>\s\<close> and \<open>\d\<close>, which in a \<open>str\<close> pattern
  range over all of Unicode, so a string is modelled as a list of code points, not of
  bytes.  ASCII literals are written as HOL strings and converted with \<open>ustr\<close>.
\<close>

type_synonym pstr = "int list"

definition ustr :: "string \<Rightarrow> pstr" where
  "ustr s = map of_char s"

text \<open>
  \<open>str.isspace\<close>, which is also the class \<open>\s\<close> of \<open>re\<close> and what \<open>str.strip()\<close> removes:
  the 29 code points U+0009..U+000D, U+001C..U+0020, U+0085, U+00A0, U+1680,
  U+2000..U+200A, U+2028, U+2029, U+202F, U+205F, U+3000.
\<close>

definition py_isspace :: "int \<Rightarrow> bool" where
  "py_isspace c \<longleftrightarrow>
     (9 \<le> c \<and> c \<le> 13) \<or> (28 \<le> c \<and> c \<le> 32) \<or> c = 133 \<or> c = 160 \<or> c = 5760 \<or>
     (8192 \<le> c \<and> c \<le> 8202) \<or> c = 8232 \<or> c = 8233 \<or> c = 8239 \<or> c = 8287 \<or>
     c = 12288"

text \<open>
  The decimal digits (general category Nd) come in runs of ten consecutive code points
  with the values 0 to 9.  \<open>decimal_zeros\<close> lists the code point of the zero of each run
  (Unicode 14.0, the table of CPython 3.11): \<open>\d\<close> of \<open>re\<close> accepts exactly these
  characters, and \<open>int()\<close> reads each of them as its decimal value.
\<close>

definition decimal_zeros :: "int list" where
  "decimal_zeros =
     [48, 1632, 1776, 1984, 2406, 2534, 2662, 2790, 2918, 3046, 3174, 3302, 3430, 3558,
      3664, 3792, 3872, 4160, 4240, 6112, 6160, 6470, 6608, 6784, 6800, 6992, 7088, 7232,
      7248, 42528, 43216, 43264, 43472, 43504, 43600, 44016, 65296, 66720, 68912, 69734,
      69872, 69942, 70096, 70384, 70736, 70864, 71248, 71360, 71472, 71904, 72016, 72784,
      73040, 73120, 92768, 92864, 93008, 120782, 120792, 120802, 120812, 120822, 123200,
      123632, 125264, 130032]"

definition py_decimal :: "int \<Rightarrow> int option" where
  "py_decimal c = map_option (\<lambda>z. c - z) (find (\<lambda>z. z \<le> c \<and> c < z + 10) decimal_zeros)"

definition py_isdecimal :: "int \<Rightarrow> bool" where
  "py_isdecimal c \<longleftrightarrow> py_decimal c \<noteq> None"

definition py_strip :: "pstr \<Rightarrow> pstr" where
  "py_strip s = rev (dropWhile py_isspace (rev (dropWhile py_isspace s)))"

text \<open>
  \<open>str.lower()\<close> is modelled on the ASCII letters.  Python also lowers the cased letters
  beyond ASCII, but \<open>H\<close> is the only character of Unicode whose lower case contains
  \<open>h\<close>, \<open>:\<close>, a decimal digit or white space, and no character lowers to the empty
  string; the only use of \<open>lower()\<close> in the program is followed by a test that the string
  consists of digits and \<open>:\<close>, whose outcome therefore is the same.
\<close>

definition py_lower :: "pstr \<Rightarrow> pstr" where
  "py_lower s = map (\<lambda>c. if 65 \<le> c \<and> c \<le> 90 then c + 32 else c) s"

definition py_endswith_h :: "pstr \<Rightarrow> bool" where
  "py_endswith_h s \<longleftrightarrow> s \<noteq> [] \<and> last s = 104"

definition py_replace_h_colon :: "pstr \<Rightarrow> pstr" where
  "py_replace_h_colon s = map (\<lambda>c. if c = 104 then 58 else c) s"

section \<open>Regular expressions with backtracking\<close>

text \<open>
  The fragment of \<open>re\<close> that the program and \<open>strptime\<close> use.  A matcher state is the
  position in the subject, the text still to read and the groups bound so far.
  \<open>rmatch r s\<close> lists the states in which an attempt to match \<open>r\<close> from \<open>s\<close> can end, in
  the order in which the backtracking engine of \<open>re\<close> tries them: the first alternative
  of \<open>|\<close> first, and the longest repetition first for the greedy \<open>?\<close> and \<open>*\<close>.
\<close>

datatype atom = Lit int | Digit | Space | Range int int | OneOf "int list"

fun atom_ok :: "atom \<Rightarrow> int \<Rightarrow> bool" where
  "atom_ok (Lit a) c \<longleftrightarrow> c = a"
| "atom_ok Digit c \<longleftrightarrow> py_isdecimal c"
| "atom_ok Space c \<longleftrightarrow> py_isspace c"
| "atom_ok (Range lo hi) c \<longleftrightarrow> lo \<le> c \<and> c \<le> hi"
| "atom_ok (OneOf cs) c \<longleftrightarrow> c \<in> set cs"

datatype regex =
    Eps
  | Atom atom
  | Seq regex regex
  | Alt regex regex
  | Opt regex
  | Star atom
  | Group string regex
  | Bol
  | Eol

type_synonym groups = "(string \<times> pstr) list"
type_synonym mstate = "nat \<times> pstr \<times> groups"

fun star :: "atom \<Rightarrow> mstate \<Rightarrow> mstate list" where
  "star a (p, [], g) = [(p, [], g)]"
| "star a (p, c # cs, g) =
     (if atom_ok a c then star a (Suc p, cs, g) @ [(p, c # cs, g)] else [(p, c # cs, g)])"

fun rmatch :: "regex \<Rightarrow> mstate \<Rightarrow> mstate list" where
  "rmatch Eps s = [s]"
| "rmatch (Atom a) (p, [], g) = []"
| "rmatch (Atom a) (p, c # cs, g) = (if atom_ok a c then [(Suc p, cs, g)] else [])"
| "rmatch (Seq r1 r2) s = concat (map (rmatch r2) (rmatch r1 s))"
| "rmatch (Alt r1 r2) s = rmatch r1 s @ rmatch r2 s"
| "rmatch (Opt r) s = rmatch r s @ [s]"
| "rmatch (Star a) s = star a s"
| "rmatch (Group nm r) (p, cs, g) =
     map (\<lambda>(p', cs', g'). (p', cs', g' @ [(nm, take (p' - p) cs)])) (rmatch r (p, cs, g))"
| "rmatch Bol (p, cs, g) = (if p = 0 then [(p, cs, g)] else [])"
| "rmatch Eol (p, cs, g) = (if cs = [] \<or> cs = [10] then [(p, cs, g)] else [])"

text \<open>\<open>seqs\<close> is juxtaposition, \<open>rep n r\<close> is \<open>r{n}\<close>, \<open>plus a\<close> is \<open>a+\<close>, \<open>lit\<close> a literal text.\<close>

definition seqs :: "regex list \<Rightarrow> regex" where
  "seqs rs = foldr Seq rs Eps"

fun rep :: "nat \<Rightarrow> regex \<Rightarrow> regex" where
  "rep 0 r = Eps"
| "rep (Suc n) r = Seq r (rep n r)"

definition plus :: "atom \<Rightarrow> regex" where
  "plus a = Seq (Atom a) (Star a)"

definition lit :: "string \<Rightarrow> regex" where
  "lit s = seqs (map (\<lambda>c. Atom (Lit (of_char c))) s)"

text \<open>
  A match object: where the match ends and the text of its groups.  \<open>re.match\<close> anchors
  the attempt at position 0 and takes the first way to match; \<open>re.fullmatch\<close> takes the
  first way that ends at the end of the subject.
\<close>

record rmatch_obj =
  m_end :: nat
  m_groups :: groups

definition re_match :: "regex \<Rightarrow> pstr \<Rightarrow> rmatch_obj option" where
  "re_match r s =
     (case rmatch r (0, s, []) of
        [] \<Rightarrow> None
      | (p, cs, g) # _ \<Rightarrow> Some \<lparr>m_end = p, m_groups = g\<rparr>)"

definition re_fullmatch :: "regex \<Rightarrow> pstr \<Rightarrow> rmatch_obj option" where
  "re_fullmatch r s =
     (case filter (\<lambda>(p, cs, g). cs = []) (rmatch r (0, s, [])) of
        [] \<Rightarrow> None
      | (p, cs, g) # _ \<Rightarrow> Some \<lparr>m_end = p, m_groups = g\<rparr>)"

text \<open>
  \<open>match.group(name)\<close>.  Every group of the patterns below takes part in every match,
  so the value \<open>None\<close> that Python gives for a group that did not is never seen; the
  model gives the empty text there.
\<close>

definition group :: "rmatch_obj \<Rightarrow> string \<Rightarrow> pstr" where
  "group m nm = (case map_of (m_groups m) nm of Some t \<Rightarrow> t | None \<Rightarrow> [])"

section \<open>The grammar of a log line\<close>

definition ws :: regex where
  "ws = Star Space"

definition dash :: regex where
  "dash = Atom (OneOf [45, 8211])"

definition CLOCK_PATTERN :: regex where
  "CLOCK_PATTERN =
     seqs [rep 2 (Atom Digit), Alt (Atom (Lit 58)) (Atom (Lit 104)), rep 2 (Atom Digit),
           Opt (Atom (Lit 104))]"

definition LOG_PATTERN :: regex where
  "LOG_PATTERN =
     seqs [Bol, Group ''clock'' CLOCK_PATTERN, ws, dash, ws,
           lit ''Abertura da tela de Despacho'', ws, dash, ws,
           Group ''company'' (rep 3 (Atom (Range 65 90))), ws, dash, ws,
           lit ''EXCEDIDO EM:'', ws, Group ''percent'' (plus Digit), ws,
           Atom (Lit 37), ws, Eol]"

section \<open>Errors\<close>

text \<open>
  \<open>ParseError\<close> is the program's own exception; its two messages are kept as values
  with the parts that the f-strings interpolate.  \<open>ValueError\<close> and \<open>OverflowError\<close> are
  the exceptions that the library calls raise unwrapped.
\<close>

datatype message =
    Linha_nao_corresponde nat pstr
  | Horario_invalido pstr

datatype error = ParseError message | ValueError | OverflowError

section \<open>Clock normalisation\<close>

definition normalize_clock :: "pstr \<Rightarrow> error + pstr" where
  "normalize_clock clock =
     (let normalized = py_lower (py_strip clock);
          normalized = (if py_endswith_h normalized then butlast normalized else normalized);
          normalized = py_replace_h_colon normalized
      in if re_fullmatch (seqs [rep 2 (Atom Digit), Atom (Lit 58), rep 2 (Atom Digit)]) normalized = None
         then Inl (ParseError (Horario_invalido clock))
         else Inr normalized)"

section \<open>Dates and times\<close>

text \<open>
  The classes \<open>date\<close>, \<open>time\<close>, \<open>datetime\<close> and \<open>timedelta\<close> of the standard library, with
  the calendar arithmetic of its reference implementation: a date is converted to its
  proleptic Gregorian ordinal (1 January of year 1 is day 1), the days are added there,
  and the result is converted back; a result outside \<open>1..MAXORDINAL\<close> (after
  9999-12-31) raises \<open>OverflowError\<close>.  Objects of these classes always hold fields in
  range (month 1 to 12, hour 0 to 23, and so on).
\<close>

record date =
  year :: int
  month :: int
  day :: int

record time =
  hour :: int
  minute :: int
  second :: int
  microsecond :: int

record datetime =
  date_of :: date
  time_of :: time

record timedelta =
  days :: int
  seconds :: int
  microseconds :: int

definition DAYS_IN_MONTH :: "int list" where
  "DAYS_IN_MONTH = [- 1, 31, 28, 31, 30, 31, 30, 31, 31, 30, 31, 30, 31]"

definition DAYS_BEFORE_MONTH :: "int list" where
  "DAYS_BEFORE_MONTH = [- 1, 0, 31, 59, 90, 120, 151, 181, 212, 243, 273, 304, 334]"

definition MAXORDINAL :: int where
  "MAXORDINAL = 3652059"

definition is_leap :: "int \<Rightarrow> bool" where
  "is_leap y \<longleftrightarrow> y mod 4 = 0 \<and> (y mod 100 \<noteq> 0 \<or> y mod 400 = 0)"

definition days_before_year :: "int \<Rightarrow> int" where
  "days_before_year yr = (let y = yr - 1 in y * 365 + y div 4 - y div 100 + y div 400)"

definition days_before_month :: "int \<Rightarrow> int \<Rightarrow> int" where
  "days_before_month y m = DAYS_BEFORE_MONTH ! nat m + (if m > 2 \<and> is_leap y then 1 else 0)"

definition ymd2ord :: "int \<Rightarrow> int \<Rightarrow> int \<Rightarrow> int" where
  "ymd2ord y m d = days_before_year y + days_before_month y m + d"

definition DI400Y :: int where "DI400Y = 146097"
definition DI100Y :: int where "DI100Y = 36524"
definition DI4Y :: int where "DI4Y = 1461"

definition ord2ymd :: "int \<Rightarrow> date" where
  "ord2ymd n0 =
     (let n = n0 - 1;
          n400 = n div DI400Y; n = n mod DI400Y;
          yr = n400 * 400 + 1;
          n100 = n div DI100Y; n = n mod DI100Y;
          n4 = n div DI4Y; n = n mod DI4Y;
          n1 = n div 365; n = n mod 365;
          yr = yr + (n100 * 100 + n4 * 4 + n1)
      in if n1 = 4 \<or> n100 = 4 then \<lparr>year = yr - 1, month = 12, day = 31\<rparr>
         else
           let leapyear = (n1 = 3 \<and> (n4 \<noteq> 24 \<or> n100 = 3));
               mth = (n + 50) div 32;
               preceding = DAYS_BEFORE_MONTH ! nat mth + (if mth > 2 \<and> leapyear then 1 else 0)
           in if preceding > n
              then let mth = mth - 1;
                       preceding = preceding -
                         (DAYS_IN_MONTH ! nat mth + (if mth = 2 \<and> leapyear then 1 else 0))
                   in \<lparr>year = yr, month = mth, day = n - preceding + 1\<rparr>
              else \<lparr>year = yr, month = mth, day = n - preceding + 1\<rparr>)"

definition toordinal :: "date \<Rightarrow> int" where
  "toordinal d = ymd2ord (year d) (month d) (day d)"

definition fromordinal :: "int \<Rightarrow> date" where
  "fromordinal n = ord2ymd n"

text \<open>\<open>timedelta(days=n)\<close> and \<open>timedelta(hours=n)\<close>, for the small \<open>n \<ge> 0\<close> of the program.\<close>

definition timedelta_days :: "int \<Rightarrow> timedelta" where
  "timedelta_days n = \<lparr>days = n, seconds = 0, microseconds = 0\<rparr>"

definition timedelta_hours :: "int \<Rightarrow> timedelta" where
  "timedelta_hours n =
     \<lparr>days = (n * 3600) div 86400, seconds = (n * 3600) mod 86400, microseconds = 0\<rparr>"

text \<open>\<open>date.__add__\<close>.\<close>

definition date_add :: "date \<Rightarrow> timedelta \<Rightarrow> error + date" where
  "date_add d other =
     (let ordinal = toordinal d + days other
      in if 0 < ordinal \<and> ordinal \<le> MAXORDINAL then Inr (fromordinal ordinal)
         else Inl OverflowError)"

text \<open>
  \<open>datetime.__add__\<close>: the date and time become one \<open>timedelta\<close>, whose constructor
  carries microseconds into seconds and seconds into days; the sum is split again.
\<close>

definition datetime_add :: "datetime \<Rightarrow> timedelta \<Rightarrow> error + datetime" where
  "datetime_add dt other =
     (let us = microsecond (time_of dt) + microseconds other;
          s = hour (time_of dt) * 3600 + minute (time_of dt) * 60 + second (time_of dt)
                + seconds other + us div 1000000;
          delta = \<lparr>days = toordinal (date_of dt) + days other + s div 86400,
                   seconds = s mod 86400, microseconds = us mod 1000000\<rparr>;
          hr = seconds delta div 3600; rem = seconds delta mod 3600;
          mi = rem div 60; sec = rem mod 60
      in if 0 < days delta \<and> days delta \<le> MAXORDINAL
         then Inr \<lparr>date_of = fromordinal (days delta),
                   time_of = \<lparr>hour = hr, minute = mi, second = sec,
                              microsecond = microseconds delta\<rparr>\<rparr>
         else Inl OverflowError)"

definition combine :: "date \<Rightarrow> time \<Rightarrow> datetime" where
  "combine d t = \<lparr>date_of = d, time_of = t\<rparr>"

text \<open>The order of \<open>time\<close> objects: hour, minute, second and microsecond, lexicographically.\<close>

definition time_less :: "time \<Rightarrow> time \<Rightarrow> bool" where
  "time_less a b \<longleftrightarrow>
     hour a < hour b \<or> (hour a = hour b \<and>
       (minute a < minute b \<or> (minute a = minute b \<and>
         (second a < second b \<or> (second a = second b \<and> microsecond a < microsecond b)))))"

text \<open>
  \<open>int()\<close> on a text of decimal digits: each digit counts with its decimal value,
  whatever its script.  CPython 3.11 refuses a text of more than 4300 digits with a
  \<open>ValueError\<close>.  (The signs, underscores and white space that \<open>int()\<close> also accepts
  cannot occur in the groups it is applied to here.)
\<close>

definition int_max_str_digits :: nat where
  "int_max_str_digits = 4300"

definition py_int :: "pstr \<Rightarrow> error + int" where
  "py_int s =
     (if s = [] \<or> \<not> list_all py_isdecimal s then Inl ValueError
      else if length s > int_max_str_digits then Inl ValueError
      else Inr (foldl (\<lambda>a c. 10 * a + (case py_decimal c of Some v \<Rightarrow> v | None \<Rightarrow> 0)) 0 s))"

text \<open>
  \<open>datetime.strptime(s, "%H:%M").time()\<close>.  \<open>strptime\<close> turns the format into the
  regular expression \<open>(?P<H>2[0-3]|[0-1]\d|\d):(?P<M>[0-5]\d|\d)\<close>, matches it at the
  start of the text, raises \<open>ValueError\<close> when it does not match or when text remains
  after the match, and reads the two groups with \<open>int()\<close>.
\<close>

definition FORMAT_HM :: regex where
  "FORMAT_HM =
     seqs [Group ''H'' (Alt (Seq (Atom (Lit 50)) (Atom (Range 48 51)))
                       (Alt (Seq (Atom (Range 48 49)) (Atom Digit)) (Atom Digit))),
           Atom (Lit 58),
           Group ''M'' (Alt (Seq (Atom (Range 48 53)) (Atom Digit)) (Atom Digit))]"

definition strptime_HM :: "pstr \<Rightarrow> error + time" where
  "strptime_HM data_string =
     (case re_match FORMAT_HM data_string of
        None \<Rightarrow> Inl ValueError
      | Some found \<Rightarrow>
          if length data_string \<noteq> m_end found then Inl ValueError
          else (case py_int (group found ''H'') of
                  Inl e \<Rightarrow> Inl e
                | Inr h \<Rightarrow>
                   (case py_int (group found ''M'') of
                      Inl e \<Rightarrow> Inl e
                    | Inr m \<Rightarrow>
                        if 0 \<le> h \<and> h < 24 \<and> 0 \<le> m \<and> m < 60
                        then Inr \<lparr>hour = h, minute = m, second = 0, microsecond = 0\<rparr>
                        else Inl ValueError)))"

text \<open>
  \<open>strftime("%Y-%m-%dT%H:%MZ")\<close>: the fields in decimal, the month, day, hour and minute
  padded with zeros to two digits.  The year is printed by the C library: glibc, on which
  CPython 3.11 gives \<open>999-12-31T23:00Z\<close> for the year 999, does not pad \<open>%Y\<close>, so a year
  (always from 1 to 9999 in a \<open>date\<close>) has one to four digits.  C libraries that pad the
  year to four digits give the same text from the year 1000 on.
\<close>

definition digits2 :: "int \<Rightarrow> pstr" where
  "digits2 n = [48 + n div 10, 48 + n mod 10]"

definition digits4 :: "int \<Rightarrow> pstr" where
  "digits4 n = [48 + n div 1000, 48 + n div 100 mod 10, 48 + n div 10 mod 10, 48 + n mod 10]"

definition strftime_Y :: "int \<Rightarrow> pstr" where
  "strftime_Y y =
     (if y < 10 then [48 + y]
      else if y < 100 then digits2 y
      else if y < 1000 then [48 + y div 100, 48 + y div 10 mod 10, 48 + y mod 10]
      else digits4 y)"

definition strftime_iso_minute_Z :: "datetime \<Rightarrow> pstr" where
  "strftime_iso_minute_Z dt =
     strftime_Y (year (date_of dt)) @ [45] @ digits2 (month (date_of dt)) @ [45] @
     digits2 (day (date_of dt)) @ [84] @ digits2 (hour (time_of dt)) @ [58] @
     digits2 (minute (time_of dt)) @ [90]"

section \<open>Dispatch records\<close>

record DispatchRecord =
  timestamp :: datetime
  company :: pstr
  exceeded_percent :: int

definition adjusted_iso :: "DispatchRecord \<Rightarrow> error + pstr" where
  "adjusted_iso self =
     (case datetime_add (timestamp self) (timedelta_hours 3) of
        Inl e \<Rightarrow> Inl e
      | Inr adjusted \<Rightarrow> Inr (strftime_iso_minute_Z adjusted))"

section \<open>Parsing the lines of a log\<close>

text \<open>
  The state of the loop of \<open>parse_records\<close>: the records appended so far, the running
  date and the clock time of the previous record.  \<open>loop_body\<close> is one pass through the
  body of the loop, for the line numbered \<open>line_number\<close>; an exception leaves the loop
  and the function, and the records collected so far are lost with it.
  A \<open>time\<close> object is always true in a condition (since Python 3.5), so
  \<open>previous_clock and ...\<close> asks only that \<open>previous_clock\<close> is not \<open>None\<close>.
\<close>

record loop_state =
  records :: "DispatchRecord list"
  current_date :: date
  previous_clock :: "time option"

definition loop_body :: "nat \<Rightarrow> pstr \<Rightarrow> loop_state \<Rightarrow> error + loop_state" where
  "loop_body line_number raw_line st =
     (let line = py_strip raw_line
      in if line = [] then Inr st
         else
           (case re_match LOG_PATTERN line of
              None \<Rightarrow> Inl (ParseError (Linha_nao_corresponde line_number raw_line))
            | Some m \<Rightarrow>
               (let clock_str = group m ''clock'';
                    comp = group m ''company''
                in case py_int (group m ''percent'') of
                     Inl e \<Rightarrow> Inl e
                   | Inr percent \<Rightarrow>
                      (case normalize_clock clock_str of
                         Inl e \<Rightarrow> Inl e
                       | Inr normalized_clock \<Rightarrow>
                          (case strptime_HM normalized_clock of
                             Inl e \<Rightarrow> Inl e
                           | Inr clock_time \<Rightarrow>
                              (case (if (case previous_clock st of
                                           None \<Rightarrow> False
                                         | Some pc \<Rightarrow> time_less clock_time pc)
                                     then date_add (current_date st) (timedelta_days 1)
                                     else Inr (current_date st)) of
                                 Inl e \<Rightarrow> Inl e
                               | Inr cur \<Rightarrow>
                                  Inr \<lparr>records = records st @
                                          [\<lparr>timestamp = combine cur clock_time,
                                            company = comp,
                                            exceeded_percent = percent\<rparr>],
                                        current_date = cur,
                                        previous_clock = Some clock_time\<rparr>))))))"

fun parse_loop :: "nat \<Rightarrow> pstr list \<Rightarrow> loop_state \<Rightarrow> error + DispatchRecord list" where
  "parse_loop line_number [] st = Inr (records st)"
| "parse_loop line_number (raw_line # rest) st =
     (case loop_body line_number raw_line st of
        Inl e \<Rightarrow> Inl e
      | Inr st' \<Rightarrow> parse_loop (Suc line_number) rest st')"

definition parse_records :: "pstr list \<Rightarrow> date \<Rightarrow> error + DispatchRecord list" where
  "parse_records lines shift_date =
     parse_loop 1 lines \<lparr>records = [], current_date = shift_date, previous_clock = None\<rparr>"

section \<open>Notions for stating the properties\<close>

text \<open>
  The constructors \<open>date(y, m, d)\<close> and \<open>datetime(y, m, d, h, mi)\<close>, and the date and the
  time of day of a record's timestamp.
\<close>

definition date_ymd :: "int \<Rightarrow> int \<Rightarrow> int \<Rightarrow> date" where
  "date_ymd y m d = \<lparr>year = y, month = m, day = d\<rparr>"

definition time_hm :: "int \<Rightarrow> int \<Rightarrow> time" where
  "time_hm h mi = \<lparr>hour = h, minute = mi, second = 0, microsecond = 0\<rparr>"

definition datetime_ymdhm :: "int \<Rightarrow> int \<Rightarrow> int \<Rightarrow> int \<Rightarrow> int \<Rightarrow> datetime" where
  "datetime_ymdhm y m d h mi = \<lparr>date_of = date_ymd y m d, time_of = time_hm h mi\<rparr>"

text \<open>
  \<open>line_event\<close> is the part of the loop body that does not depend on the state of the
  loop: what a line yields on its own (nothing for a blank line, else its clock time,
  company and percentage, or the exception).  \<open>advance\<close> and \<open>emit\<close> are the part that
  does: the date of the new record and the new state.  \<open>loop_body_eq\<close> below shows that
  the loop body is their composition.
\<close>

definition rec_date :: "DispatchRecord \<Rightarrow> date" where
  "rec_date r = date_of (timestamp r)"

definition rec_time :: "DispatchRecord \<Rightarrow> time" where
  "rec_time r = time_of (timestamp r)"

definition line_event :: "nat \<Rightarrow> pstr \<Rightarrow> error + (time \<times> pstr \<times> int) option" where
  "line_event line_number raw_line =
     (let line = py_strip raw_line
      in if line = [] then Inr None
         else
           (case re_match LOG_PATTERN line of
              None \<Rightarrow> Inl (ParseError (Linha_nao_corresponde line_number raw_line))
            | Some m \<Rightarrow>
               (case py_int (group m ''percent'') of
                  Inl e \<Rightarrow> Inl e
                | Inr percent \<Rightarrow>
                   (case normalize_clock (group m ''clock'') of
                      Inl e \<Rightarrow> Inl e
                    | Inr normalized_clock \<Rightarrow>
                       (case strptime_HM normalized_clock of
                          Inl e \<Rightarrow> Inl e
                        | Inr clock_time \<Rightarrow>
                            Inr (Some (clock_time, group m ''company'', percent)))))))"

definition advance :: "date \<Rightarrow> time option \<Rightarrow> time \<Rightarrow> error + date" where
  "advance cur prev t =
     (if (case prev of None \<Rightarrow> False | Some pc \<Rightarrow> time_less t pc)
      then date_add cur (timedelta_days 1) else Inr cur)"

definition emit :: "loop_state \<Rightarrow> time \<times> pstr \<times> int \<Rightarrow> error + loop_state" where
  "emit st ev =
     (case ev of (t, c, p) \<Rightarrow>
       (case advance (current_date st) (previous_clock st) t of
          Inl e \<Rightarrow> Inl e
        | Inr cur \<Rightarrow>
            Inr \<lparr>records = records st @
                    [\<lparr>timestamp = combine cur t, company = c, exceeded_percent = p\<rparr>],
                  current_date = cur, previous_clock = Some t\<rparr>))"

definition event_of :: "DispatchRecord \<Rightarrow> time \<times> pstr \<times> int" where
  "event_of r = (rec_time r, company r, exceeded_percent r)"

definition events_of :: "pstr list \<Rightarrow> (time \<times> pstr \<times> int) list" where
  "events_of lines =
     concat (map (\<lambda>l. case line_event 0 l of Inr (Some ev) \<Rightarrow> [ev] | _ \<Rightarrow> []) lines)"

definition clock_times :: "pstr list \<Rightarrow> time list" where
  "clock_times lines = map fst (events_of lines)"

fun chain :: "date \<Rightarrow> time option \<Rightarrow> DispatchRecord list \<Rightarrow> bool" where
  "chain cur prev [] \<longleftrightarrow> True"
| "chain cur prev (r # rs) \<longleftrightarrow>
     advance cur prev (rec_time r) = Inr (rec_date r) \<and> chain (rec_date r) (Some (rec_time r)) rs"

definition is_hhmm :: "pstr \<Rightarrow> bool" where
  "is_hhmm s \<longleftrightarrow>
     (case s of
        [a, b, sep, c, d] \<Rightarrow>
          py_isdecimal a \<and> py_isdecimal b \<and> sep = 58 \<and> py_isdecimal c \<and> py_isdecimal d
      | _ \<Rightarrow> False)"

definition normal_form :: "pstr \<Rightarrow> pstr" where
  "normal_form clock =
     (let s = py_lower (py_strip clock)
      in py_replace_h_colon (if py_endswith_h s then butlast s else s))"

fun sequence_loop :: "(time \<times> pstr \<times> int) list \<Rightarrow> loop_state \<Rightarrow> error + DispatchRecord list" where
  "sequence_loop [] st = Inr (records st)"
| "sequence_loop (ev # evs) st =
     (case emit st ev of Inl e \<Rightarrow> Inl e | Inr st' \<Rightarrow> sequence_loop evs st')"

definition accepted :: "pstr \<Rightarrow> bool" where
  "accepted raw \<longleftrightarrow> (case line_event 0 raw of Inl e \<Rightarrow> False | Inr x \<Rightarrow> True)"

definition valid_time :: "time \<Rightarrow> bool" where
  "valid_time t \<longleftrightarrow> 0 \<le> hour t \<and> hour t < 24 \<and> 0 \<le> minute t \<and> minute t < 60 \<and>
     0 \<le> second t \<and> second t < 60 \<and> 0 \<le> microsecond t \<and> microsecond t < 1000000"







section \<open>The loop body and the loop\<close>

lemma loop_body_eq:
  "loop_body n raw st =
     (case line_event n raw of
        Inl e \<Rightarrow> Inl e
      | Inr None \<Rightarrow> Inr st
      | Inr (Some ev) \<Rightarrow> emit st ev)"
  by (simp add: loop_body_def line_event_def advance_def emit_def Let_def
           split: option.splits sum.splits)

lemma line_event_number:
  "line_event n raw = Inr x \<Longrightarrow> line_event k raw = Inr x"
  by (auto simp: line_event_def Let_def split: if_splits option.splits sum.splits)

lemma line_event_blank: "py_strip raw = [] \<Longrightarrow> line_event n raw = Inr None"
  by (simp add: line_event_def)

lemma line_event_None_blank: "line_event n raw = Inr None \<Longrightarrow> py_strip raw = []"
  by (auto simp: line_event_def Let_def split: if_splits option.splits sum.splits)

lemma emit_Inr:
  "emit st ev = Inr st' \<Longrightarrow>
     \<exists>r. records st' = records st @ [r] \<and> event_of r = ev \<and>
         advance (current_date st) (previous_clock st) (rec_time r) = Inr (rec_date r) \<and>
         current_date st' = rec_date r \<and> previous_clock st' = Some (rec_time r)"
  by (auto simp: emit_def event_of_def rec_time_def rec_date_def combine_def
           split: prod.splits sum.splits)

lemma parse_loop_chain:
  "parse_loop n lines st = Inr out \<Longrightarrow>
     \<exists>new. out = records st @ new \<and> chain (current_date st) (previous_clock st) new \<and>
           map event_of new = events_of lines \<and>
           length new = length (filter (\<lambda>l. py_strip l \<noteq> []) lines)"
proof (induction lines arbitrary: n st)
  case Nil
  then show ?case by (simp add: events_of_def)
next
  case (Cons raw rest)
  from Cons.prems obtain st' where body: "loop_body n raw st = Inr st'"
    and loop: "parse_loop (Suc n) rest st' = Inr out"
    by (auto split: sum.splits)
  from Cons.IH [OF loop] obtain new where new: "out = records st' @ new"
    "chain (current_date st') (previous_clock st') new"
    "map event_of new = events_of rest"
    "length new = length (filter (\<lambda>l. py_strip l \<noteq> []) rest)"
    by blast
  show ?case
  proof (cases "line_event n raw")
    case (Inl e)
    with body show ?thesis by (simp add: loop_body_eq)
  next
    case (Inr x)
    note ev = line_event_number [OF Inr, of 0]
    show ?thesis
    proof (cases x)
      case None
      with Inr body have "st' = st" by (simp add: loop_body_eq)
      moreover have "py_strip raw = []" using Inr None by (simp add: line_event_None_blank)
      ultimately show ?thesis using new ev None by (simp add: events_of_def)
    next
      case (Some ev')
      with Inr body have "emit st ev' = Inr st'" by (simp add: loop_body_eq)
      from emit_Inr [OF this] obtain r where r: "records st' = records st @ [r]"
        "event_of r = ev'"
        "advance (current_date st) (previous_clock st) (rec_time r) = Inr (rec_date r)"
        "current_date st' = rec_date r" "previous_clock st' = Some (rec_time r)"
        by blast
      have nb: "py_strip raw \<noteq> []"
        using Inr Some by (auto simp: line_event_blank)
      have "out = records st @ (r # new)" using new r by simp
      moreover have "chain (current_date st) (previous_clock st) (r # new)"
        using new r by simp
      moreover have "map event_of (r # new) = events_of (raw # rest)"
        using new r ev Some by (simp add: events_of_def)
      moreover have "length (r # new) = length (filter (\<lambda>l. py_strip l \<noteq> []) (raw # rest))"
        using new nb by simp
      ultimately show ?thesis by blast
    qed
  qed
qed

lemma parse_records_chain:
  assumes "parse_records lines d = Inr recs"
  shows "chain d None recs" and "map event_of recs = events_of lines"
    and "length recs = length (filter (\<lambda>l. py_strip l \<noteq> []) lines)"
  using parse_loop_chain [OF assms [unfolded parse_records_def]] by auto

lemma chain_adjacent:
  "chain cur prev rs \<Longrightarrow> Suc i < length rs \<Longrightarrow>
     advance (rec_date (rs ! i)) (Some (rec_time (rs ! i))) (rec_time (rs ! Suc i))
       = Inr (rec_date (rs ! Suc i))"
proof (induction rs arbitrary: cur prev i)
  case Nil
  then show ?case by simp
next
  case (Cons r rs)
  show ?case
  proof (cases i)
    case 0
    with Cons.prems show ?thesis by (cases rs) auto
  next
    case (Suc j)
    with Cons.prems Cons.IH [of "rec_date r" "Some (rec_time r)" j] show ?thesis by simp
  qed
qed

lemma chain_nondecreasing:
  "chain cur prev rs \<Longrightarrow> successively (\<lambda>a b. \<not> time_less b a) (map rec_time rs) \<Longrightarrow>
     (case prev of None \<Rightarrow> True | Some pc \<Rightarrow> rs \<noteq> [] \<longrightarrow> \<not> time_less (rec_time (hd rs)) pc) \<Longrightarrow>
     \<forall>r \<in> set rs. rec_date r = cur"
proof (induction rs arbitrary: prev)
  case Nil
  then show ?case by simp
next
  case (Cons r rs)
  from Cons.prems(1,3) have r: "rec_date r = cur"
    by (auto simp: advance_def split: option.splits if_splits)
  from Cons.prems(1) r have ch: "chain cur (Some (rec_time r)) rs" by simp
  from Cons.prems(2) have s: "successively (\<lambda>a b. \<not> time_less b a) (map rec_time rs)"
    by (cases rs) auto
  from Cons.prems(2) have h: "rs \<noteq> [] \<longrightarrow> \<not> time_less (rec_time (hd rs)) (rec_time r)"
    by (cases rs) auto
  from Cons.IH [OF ch s] h r show ?case by simp
qed

lemma rmatch_hhmm:
  "rmatch (seqs [rep 2 (Atom Digit), Atom (Lit 58), rep 2 (Atom Digit)]) (p, s, g) =
     (case s of a # b # sep # c # d # rest \<Rightarrow>
        if py_isdecimal a \<and> py_isdecimal b \<and> sep = 58 \<and> py_isdecimal c \<and> py_isdecimal d
        then [(p + 5, rest, g)] else []
      | _ \<Rightarrow> [])"
  by (simp add: seqs_def numeral_2_eq_2 split: list.splits)

lemma fullmatch_hhmm:
  "re_fullmatch (seqs [rep 2 (Atom Digit), Atom (Lit 58), rep 2 (Atom Digit)]) s \<noteq> None \<longleftrightarrow> is_hhmm s"
  by (simp add: re_fullmatch_def rmatch_hhmm is_hhmm_def split: list.splits)

lemma normalize_clock_eq:
  "normalize_clock clock =
     (if is_hhmm (normal_form clock) then Inr (normal_form clock)
      else Inl (ParseError (Horario_invalido clock)))"
  using fullmatch_hhmm [of "normal_form clock"]
  by (auto simp: normalize_clock_def normal_form_def Let_def)

lemma py_decimal_run:
  "py_decimal c = Some v \<Longrightarrow> \<exists>z \<in> set decimal_zeros. z \<le> c \<and> c < z + 10 \<and> v = c - z"
  by (auto simp: py_decimal_def find_Some_iff)

lemma py_decimal_range: "py_decimal c = Some v \<Longrightarrow> 0 \<le> v \<and> v \<le> 9"
  by (drule py_decimal_run) auto

lemma py_decimal_ascii: "48 \<le> c \<Longrightarrow> c \<le> 57 \<Longrightarrow> py_decimal c = Some (c - 48)"
  by (simp add: py_decimal_def decimal_zeros_def)

lemma decimal_ge_48: "py_isdecimal c \<Longrightarrow> 48 \<le> c"
  unfolding py_isdecimal_def
  by (cases "py_decimal c") (auto dest!: py_decimal_run simp: decimal_zeros_def)

lemma decimal_ascii_or_high: "py_isdecimal c \<Longrightarrow> c \<le> 57 \<or> 1632 \<le> c"
  unfolding py_isdecimal_def
  by (cases "py_decimal c") (auto dest!: py_decimal_run simp: decimal_zeros_def)

lemma decimal_not_space: "py_isdecimal c \<Longrightarrow> \<not> py_isspace c"
  unfolding py_isdecimal_def
  by (cases "py_decimal c") (auto dest!: py_decimal_run simp: decimal_zeros_def py_isspace_def)

lemma accepted_number: "accepted raw \<longleftrightarrow> (\<exists>x. line_event n raw = Inr x)"
  unfolding accepted_def
  by (cases "line_event 0 raw"; cases "line_event n raw")
     (auto dest: line_event_number [of _ _ _ n] line_event_number [of _ _ _ 0])

lemma parse_loop_Inr_iff:
  "parse_loop n lines st = Inr out \<longleftrightarrow>
     list_all accepted lines \<and> sequence_loop (events_of lines) st = Inr out"
proof (induction lines arbitrary: n st)
  case Nil
  then show ?case by (simp add: events_of_def)
next
  case (Cons raw rest)
  show ?case
  proof (cases "line_event n raw")
    case (Inl e)
    then have "\<not> accepted raw" by (simp add: accepted_number [of raw n])
    with Inl show ?thesis by (simp add: loop_body_eq)
  next
    case (Inr x)
    then have acc: "accepted raw" by (auto simp: accepted_number [of raw n])
    note ev = line_event_number [OF Inr, of 0]
    show ?thesis
    proof (cases x)
      case None
      with Inr ev acc Cons.IH [of "Suc n" st] show ?thesis
        by (simp add: loop_body_eq events_of_def)
    next
      case (Some e)
      with Inr ev acc Cons.IH [of "Suc n"] show ?thesis
        by (simp add: loop_body_eq events_of_def split: sum.splits)
    qed
  qed
qed

lemma accepted_blank: "py_strip raw = [] \<Longrightarrow> accepted raw"
  by (simp add: accepted_def line_event_blank)

lemma events_of_filter:
  "events_of (filter (\<lambda>l. py_strip l \<noteq> []) lines) = events_of lines"
  by (induction lines) (auto simp: events_of_def line_event_blank)

lemma list_all_accepted_filter:
  "list_all accepted (filter (\<lambda>l. py_strip l \<noteq> []) lines) \<longleftrightarrow> list_all accepted lines"
  by (induction lines) (auto simp: accepted_blank)

lemma parse_records_skip_blank:
  "parse_records (filter (\<lambda>l. py_strip l \<noteq> []) lines) d = Inr recs \<longleftrightarrow>
   parse_records lines d = Inr recs"
  by (simp add: parse_records_def parse_loop_Inr_iff events_of_filter list_all_accepted_filter)

lemma events_of_blank: "\<forall>l \<in> set lines. py_strip l = [] \<Longrightarrow> events_of lines = []"
  by (induction lines) (auto simp: events_of_def line_event_blank)

lemma parse_records_all_blank:
  "\<forall>l \<in> set lines. py_strip l = [] \<Longrightarrow> parse_records lines d = Inr []"
  by (simp add: parse_records_def parse_loop_Inr_iff events_of_blank list_all_iff accepted_blank)

lemma split_seconds:
  fixes h mi s :: int
  assumes "0 \<le> h" "0 \<le> mi" "mi < 60" "0 \<le> s" "s < 60"
  defines "S \<equiv> h * 3600 + mi * 60 + s + 10800"
  shows "S div 86400 = (h + 3) div 24"
    and "S mod 86400 div 3600 = (h + 3) mod 24"
    and "S mod 86400 mod 3600 div 60 = mi"
    and "S mod 86400 mod 3600 mod 60 = s"
proof -
  define q where "q = (h + 3) div 24"
  define m where "m = (h + 3) mod 24"
  have hq: "h + 3 = 24 * q + m" unfolding q_def m_def by simp
  have m: "0 \<le> m" "m < 24" unfolding m_def by simp_all
  have S1: "S = 86400 * q + (3600 * m + (mi * 60 + s))"
    unfolding S_def using hq by simp
  have b1: "0 \<le> 3600 * m + (mi * 60 + s)" "3600 * m + (mi * 60 + s) < 86400"
    using m assms(2-5) by simp_all
  show d: "S div 86400 = (h + 3) div 24"
    using int_div_pos_eq [OF S1 b1] by (simp add: q_def)
  have r1: "S mod 86400 = 3600 * m + (mi * 60 + s)"
    using int_mod_pos_eq [OF S1 b1] .
  have b2: "0 \<le> mi * 60 + s" "mi * 60 + s < 3600" using assms(2-5) by simp_all
  show "S mod 86400 div 3600 = (h + 3) mod 24"
    using int_div_pos_eq [OF r1 b2] by (simp add: m_def)
  have r2: "S mod 86400 mod 3600 = 60 * mi + s"
    using int_mod_pos_eq [OF r1 b2] by simp
  show "S mod 86400 mod 3600 div 60 = mi"
    using int_div_pos_eq [OF r2 assms(4,5)] .
  show "S mod 86400 mod 3600 mod 60 = s"
    using int_mod_pos_eq [OF r2 assms(4,5)] .
qed

lemma datetime_add_3h:
  assumes "valid_time (time_of dt)"
  shows "datetime_add dt (timedelta_hours 3) =
     (let ordinal = toordinal (date_of dt) + (hour (time_of dt) + 3) div 24
      in if 0 < ordinal \<and> ordinal \<le> MAXORDINAL
         then Inr \<lparr>date_of = fromordinal ordinal,
                   time_of = (time_of dt)\<lparr>hour := (hour (time_of dt) + 3) mod 24\<rparr>\<rparr>
         else Inl OverflowError)"
proof -
  obtain h mi s us where t: "time_of dt = \<lparr>hour = h, minute = mi, second = s, microsecond = us\<rparr>"
    by (cases "time_of dt") auto
  from assms t have r: "0 \<le> h" "0 \<le> mi" "mi < 60" "0 \<le> s" "s < 60"
    and u: "0 \<le> us" "us < 1000000"
    by (auto simp: valid_time_def)
  note sp = split_seconds [OF r]
  have u0: "us div 1000000 = 0" "us mod 1000000 = us" using u by simp_all
  show ?thesis
    by (simp add: datetime_add_def timedelta_hours_def t Let_def u0 sp)
qed

lemma decimal_plain:
  assumes "py_isdecimal c"
  shows "\<not> py_isspace c" "\<not> (65 \<le> c \<and> c \<le> 90)" "c \<noteq> 104" "c \<noteq> 58"
  using decimal_not_space [OF assms] decimal_ge_48 [OF assms] decimal_ascii_or_high [OF assms]
  by auto

lemma not_space_h_colon: "\<not> py_isspace 104" "\<not> py_isspace 58"
  by (simp_all add: py_isspace_def)

lemma normal_form_digits:
  assumes "py_isdecimal a" "py_isdecimal b" "py_isdecimal c" "py_isdecimal e"
  shows "normal_form [a, b, 104, c, e, 104] = [a, b, 58, c, e]"
    and "normal_form [a, b, 104, c, e] = [a, b, 58, c, e]"
    and "normal_form [a, b, 58, c, e, 104] = [a, b, 58, c, e]"
    and "normal_form [a, b, 58, c, e] = [a, b, 58, c, e]"
proof -
  note A = decimal_plain [OF assms(1)] and B = decimal_plain [OF assms(2)]
    and C = decimal_plain [OF assms(3)] and E = decimal_plain [OF assms(4)]
  have s1: "py_strip [a, b, 104, c, e, 104] = [a, b, 104, c, e, 104]"
    and s2: "py_strip [a, b, 104, c, e] = [a, b, 104, c, e]"
    and s3: "py_strip [a, b, 58, c, e, 104] = [a, b, 58, c, e, 104]"
    and s4: "py_strip [a, b, 58, c, e] = [a, b, 58, c, e]"
    using A(1) E(1) not_space_h_colon by (simp_all add: py_strip_def)
  have l: "\<And>x. py_isdecimal x \<Longrightarrow> (if 65 \<le> x \<and> x \<le> 90 then x + 32 else x) = x"
    using decimal_plain(2) by simp
  have r: "\<And>x. py_isdecimal x \<Longrightarrow> (if x = 104 then 58 else x) = x"
    using decimal_plain(3) by simp
  show "normal_form [a, b, 104, c, e, 104] = [a, b, 58, c, e]"
    by (simp add: normal_form_def s1 py_lower_def py_endswith_h_def py_replace_h_colon_def
          l r assms)
  show "normal_form [a, b, 104, c, e] = [a, b, 58, c, e]"
    using E(3) by (simp add: normal_form_def s2 py_lower_def py_endswith_h_def
          py_replace_h_colon_def l r assms)
  show "normal_form [a, b, 58, c, e, 104] = [a, b, 58, c, e]"
    by (simp add: normal_form_def s3 py_lower_def py_endswith_h_def py_replace_h_colon_def
          l r assms)
  show "normal_form [a, b, 58, c, e] = [a, b, 58, c, e]"
    using E(3) by (simp add: normal_form_def s4 py_lower_def py_endswith_h_def
          py_replace_h_colon_def l r assms)
qed

lemma normalize_clock_digits:
  assumes "py_isdecimal a" "py_isdecimal b" "py_isdecimal c" "py_isdecimal e"
  shows "normalize_clock [a, b, 104, c, e, 104] = Inr [a, b, 58, c, e]"
    and "normalize_clock [a, b, 104, c, e] = Inr [a, b, 58, c, e]"
    and "normalize_clock [a, b, 58, c, e, 104] = Inr [a, b, 58, c, e]"
    and "normalize_clock [a, b, 58, c, e] = Inr [a, b, 58, c, e]"
  using assms by (simp_all add: normalize_clock_eq normal_form_digits is_hhmm_def)

lemma isdecimal_ascii: "48 \<le> c \<Longrightarrow> c \<le> 57 \<Longrightarrow> py_isdecimal c"
  by (simp add: py_isdecimal_def py_decimal_ascii)

lemma digits2_decimal:
  assumes "0 \<le> n" "n < 100"
  shows "py_isdecimal (48 + n div 10)" "py_isdecimal (48 + n mod 10)"
proof -
  have "0 \<le> n div 10" "n div 10 \<le> 9" using assms by simp_all
  then show "py_isdecimal (48 + n div 10)" by (intro isdecimal_ascii) simp_all
  have "0 \<le> n mod 10" "n mod 10 \<le> 9" by simp_all
  then show "py_isdecimal (48 + n mod 10)" by (intro isdecimal_ascii) simp_all
qed

lemma normalize_two_digit_fields:
  assumes "0 \<le> hh" "hh < 100" "0 \<le> mm" "mm < 100"
  shows "normalize_clock (digits2 hh @ [58] @ digits2 mm) = Inr (digits2 hh @ [58] @ digits2 mm)"
  using normalize_clock_digits(4) [OF digits2_decimal [OF assms(1,2)] digits2_decimal [OF assms(3,4)]]
  by (simp add: digits2_def)

lemma adjusted_iso_eq:
  assumes "valid_time (rec_time r)"
  shows "adjusted_iso r =
     (let ordinal = toordinal (rec_date r) + (hour (rec_time r) + 3) div 24
      in if 0 < ordinal \<and> ordinal \<le> MAXORDINAL
         then Inr (strftime_Y (year (fromordinal ordinal)) @ [45] @
                   digits2 (month (fromordinal ordinal)) @ [45] @
                   digits2 (day (fromordinal ordinal)) @ [84] @
                   digits2 ((hour (rec_time r) + 3) mod 24) @ [58] @
                   digits2 (minute (rec_time r)) @ [90])
         else Inl OverflowError)"
  using datetime_add_3h [of "timestamp r"] assms
  by (simp add: adjusted_iso_def rec_time_def rec_date_def Let_def strftime_iso_minute_Z_def)

section \<open>The calendar\<close>

text \<open>
  The conversion from ordinals to dates is right inverse to the conversion from dates
  to ordinals: the date that \<open>fromordinal\<close> gives for \<open>n\<close> has the ordinal \<open>n\<close>.  So a date
  plus \<open>timedelta(days=1)\<close> is the date of the next ordinal, and a timestamp plus
  \<open>timedelta(hours=3)\<close> is three hours later on the scale of hours since day 0.
\<close>

lemma days_before_year_cycles:
  fixes q400 q100 q4 q1 :: int
  assumes "0 \<le> q100" "q100 \<le> 3" "0 \<le> q4" "q4 \<le> 24" "0 \<le> q1" "q1 \<le> 3"
  shows "days_before_year (q400 * 400 + 1 + (q100 * 100 + q4 * 4 + q1)) =
     146097 * q400 + 36524 * q100 + 1461 * q4 + 365 * q1"
proof -
  define y where "y = q400 * 400 + (q100 * 100 + q4 * 4 + q1)"
  have d4: "y div 4 = 100 * q400 + 25 * q100 + q4"
    by (rule int_div_pos_eq [where r = q1]) (use assms in \<open>simp_all add: y_def\<close>)
  have d100: "y div 100 = 4 * q400 + q100"
    by (rule int_div_pos_eq [where r = "q4 * 4 + q1"]) (use assms in \<open>simp_all add: y_def\<close>)
  have d400: "y div 400 = q400"
    by (rule int_div_pos_eq [where r = "q100 * 100 + q4 * 4 + q1"])
      (use assms in \<open>simp_all add: y_def\<close>)
  have "days_before_year (y + 1) = y * 365 + y div 4 - y div 100 + y div 400"
    by (simp add: days_before_year_def)
  also have "\<dots> = 146097 * q400 + 36524 * q100 + 1461 * q4 + 365 * q1"
    unfolding d4 d100 d400 by (simp add: y_def)
  finally show ?thesis by (simp add: y_def add.commute add.left_commute)
qed

lemma is_leap_cycles:
  fixes q400 q100 q4 q1 :: int
  assumes "0 \<le> q100" "q100 \<le> 3" "0 \<le> q4" "q4 \<le> 24" "0 \<le> q1" "q1 \<le> 3"
  shows "is_leap (q400 * 400 + 1 + (q100 * 100 + q4 * 4 + q1)) \<longleftrightarrow>
     q1 = 3 \<and> (q4 \<noteq> 24 \<or> q100 = 3)"
proof -
  define yr where "yr = q400 * 400 + 1 + (q100 * 100 + q4 * 4 + q1)"
  have m4: "yr mod 4 = (q1 + 1) mod 4"
  proof -
    have "yr = (q1 + 1) + 4 * (100 * q400 + 25 * q100 + q4)" by (simp add: yr_def)
    then show ?thesis by (simp only: mod_mult_self2)
  qed
  have m100: "yr mod 100 = (q4 * 4 + q1 + 1) mod 100"
  proof -
    have "yr = (q4 * 4 + q1 + 1) + 100 * (4 * q400 + q100)" by (simp add: yr_def)
    then show ?thesis by (simp only: mod_mult_self2)
  qed
  have m400: "yr mod 400 = (q100 * 100 + q4 * 4 + q1 + 1) mod 400"
  proof -
    have "yr = (q100 * 100 + q4 * 4 + q1 + 1) + 400 * q400" by (simp add: yr_def)
    then show ?thesis by (simp only: mod_mult_self2)
  qed
  have a: "(q1 + 1) mod 4 = 0 \<longleftrightarrow> q1 = 3"
  proof (cases "q1 = 3")
    case True
    then show ?thesis by simp
  next
    case False
    with assms have "0 \<le> q1 + 1" "q1 + 1 < 4" by simp_all
    then have "(q1 + 1) mod 4 = q1 + 1" by simp
    with assms False show ?thesis by simp
  qed
  have b: "(q4 * 4 + q1 + 1) mod 100 = 0 \<longleftrightarrow> q4 = 24" if "q1 = 3"
  proof (cases "q4 = 24")
    case True
    with that show ?thesis by simp
  next
    case False
    with assms that have "0 \<le> q4 * 4 + q1 + 1" "q4 * 4 + q1 + 1 < 100" by simp_all
    then have "(q4 * 4 + q1 + 1) mod 100 = q4 * 4 + q1 + 1" by simp
    with assms False show ?thesis by simp
  qed
  have c: "(q100 * 100 + q4 * 4 + q1 + 1) mod 400 = 0 \<longleftrightarrow> q100 = 3" if "q1 = 3" "q4 = 24"
  proof (cases "q100 = 3")
    case True
    with that show ?thesis by simp
  next
    case False
    with assms that have "0 \<le> q100 * 100 + q4 * 4 + q1 + 1" "q100 * 100 + q4 * 4 + q1 + 1 < 400"
      by simp_all
    then have "(q100 * 100 + q4 * 4 + q1 + 1) mod 400 = q100 * 100 + q4 * 4 + q1 + 1" by simp
    with assms False show ?thesis by simp
  qed
  show ?thesis
    unfolding is_leap_def yr_def [symmetric] m4 m100 m400
    using a b c by (cases "q1 = 3"; cases "q4 = 24") simp_all
qed


lemma month_step:
  fixes m r :: int
  assumes "1 \<le> m" "m \<le> 12" "0 \<le> r"
  shows "(let preceding = DAYS_BEFORE_MONTH ! nat m + (if m > 2 \<and> L then 1 else 0)
          in if preceding > r
             then let mth = m - 1;
                      preceding = preceding -
                        (DAYS_IN_MONTH ! nat mth + (if mth = 2 \<and> L then 1 else 0))
                  in DAYS_BEFORE_MONTH ! nat mth + (if mth > 2 \<and> L then 1 else 0) +
                     (r - preceding + 1)
             else DAYS_BEFORE_MONTH ! nat m + (if m > 2 \<and> L then 1 else 0) +
                  (r - preceding + 1)) = r + 1"
proof -
  from assms(1,2) have "m = 1 \<or> m = 2 \<or> m = 3 \<or> m = 4 \<or> m = 5 \<or> m = 6 \<or> m = 7 \<or> m = 8 \<or>
      m = 9 \<or> m = 10 \<or> m = 11 \<or> m = 12" by arith
  then show ?thesis
    using assms(3)
    by (elim disjE) (simp_all add: DAYS_BEFORE_MONTH_def DAYS_IN_MONTH_def Let_def)
qed

lemma toordinal_ord2ymd: "toordinal (ord2ymd n0) = n0"
proof -
  define n where "n = n0 - 1"
  define q400 where "q400 = n div 146097"
  define r400 where "r400 = n mod 146097"
  define q100 where "q100 = r400 div 36524"
  define r100 where "r100 = r400 mod 36524"
  define q4 where "q4 = r100 div 1461"
  define r4 where "r4 = r100 mod 1461"
  define q1 where "q1 = r4 div 365"
  define r1 where "r1 = r4 mod 365"
  define yr where "yr = q400 * 400 + 1 + (q100 * 100 + q4 * 4 + q1)"
  define L where "L \<longleftrightarrow> q1 = 3 \<and> (q4 \<noteq> 24 \<or> q100 = 3)"
  define mth where "mth = (r1 + 50) div 32"
  have e: "n = 146097 * q400 + r400" "r400 = 36524 * q100 + r100"
    "r100 = 1461 * q4 + r4" "r4 = 365 * q1 + r1"
    by (simp_all add: q400_def r400_def q100_def r100_def q4_def r4_def q1_def r1_def)
  have b: "0 \<le> r400" "r400 < 146097" "0 \<le> r100" "r100 < 36524" "0 \<le> r4" "r4 < 1461"
    "0 \<le> r1" "r1 < 365"
    by (simp_all add: r400_def r100_def r4_def r1_def)
  have q: "0 \<le> q100" "q100 \<le> 4" "0 \<le> q4" "q4 \<le> 24" "0 \<le> q1" "q1 \<le> 4"
    using e b by linarith+
  have o: "ord2ymd n0 =
     (if q1 = 4 \<or> q100 = 4 then \<lparr>year = yr - 1, month = 12, day = 31\<rparr>
      else
        let preceding = DAYS_BEFORE_MONTH ! nat mth + (if mth > 2 \<and> L then 1 else 0)
        in if preceding > r1
           then let mth' = mth - 1;
                    preceding = preceding -
                      (DAYS_IN_MONTH ! nat mth' + (if mth' = 2 \<and> L then 1 else 0))
                in \<lparr>year = yr, month = mth', day = r1 - preceding + 1\<rparr>
           else \<lparr>year = yr, month = mth, day = r1 - preceding + 1\<rparr>)"
    unfolding ord2ymd_def DI400Y_def DI100Y_def DI4Y_def Let_def
      n_def [symmetric] q400_def [symmetric] r400_def [symmetric] q100_def [symmetric]
      r100_def [symmetric] q4_def [symmetric] r4_def [symmetric] q1_def [symmetric]
      r1_def [symmetric] yr_def [symmetric] L_def [symmetric] mth_def [symmetric]
    by (rule refl)
  show ?thesis
  proof (cases "q100 = 4")
    case True
    with e b have z: "r400 = 146096" "r100 = 0" by linarith+
    then have z': "q4 = 0" "q1 = 0" by (simp_all add: q4_def r4_def q1_def)
    have y: "yr - 1 = q400 * 400 + 1 + (3 * 100 + 24 * 4 + 3)"
      by (simp add: yr_def True z')
    have d: "days_before_year (yr - 1) = 146097 * q400 + 145731"
      unfolding y by (subst days_before_year_cycles) simp_all
    have l: "is_leap (yr - 1)"
      unfolding y by (subst is_leap_cycles) simp_all
    have "toordinal (ord2ymd n0) = 146097 * q400 + 146097"
      by (simp add: o True toordinal_def ymd2ord_def d l days_before_month_def
            DAYS_BEFORE_MONTH_def)
    also have "\<dots> = n0" using e(1) z(1) by (simp add: n_def)
    finally show ?thesis .
  next
    case False
    with q have q100: "q100 \<le> 3" by simp
    show ?thesis
    proof (cases "q1 = 4")
      case True
      with e b have z: "r1 = 0" by linarith
      from True e b have q4: "q4 \<noteq> 24" by linarith
      have y: "yr - 1 = q400 * 400 + 1 + (q100 * 100 + q4 * 4 + 3)"
        by (simp add: yr_def True)
      have d: "days_before_year (yr - 1) = 146097 * q400 + 36524 * q100 + 1461 * q4 + 1095"
        unfolding y by (subst days_before_year_cycles) (use q q100 in simp_all)
      have l: "is_leap (yr - 1)"
        unfolding y by (subst is_leap_cycles) (use q q100 q4 in simp_all)
      have "toordinal (ord2ymd n0) = 146097 * q400 + 36524 * q100 + 1461 * q4 + 1461"
        by (simp add: o True toordinal_def ymd2ord_def d l days_before_month_def
              DAYS_BEFORE_MONTH_def)
      also have "\<dots> = n0" using e z True by (simp add: n_def)
      finally show ?thesis .
    next
      case q1: False
      with q have q1': "q1 \<le> 3" by simp
      have d: "days_before_year yr = 146097 * q400 + 36524 * q100 + 1461 * q4 + 365 * q1"
        unfolding yr_def by (rule days_before_year_cycles) (use q q100 q1' in simp_all)
      have l: "is_leap yr = L"
        unfolding yr_def L_def by (rule is_leap_cycles) (use q q100 q1' in simp_all)
      have m: "1 \<le> mth" "mth \<le> 12" using b(7,8) unfolding mth_def by simp_all
      note ms = month_step [OF m b(7), of L]
      have "toordinal (ord2ymd n0) = days_before_year yr + (r1 + 1)"
        unfolding ms [symmetric]
        by (simp add: o False q1 toordinal_def ymd2ord_def days_before_month_def l Let_def)
      also have "\<dots> = n0" using e d by (simp add: n_def)
      finally show ?thesis .
    qed
  qed
qed

lemma date_add_one_day:
  "date_add d (timedelta_days 1) = Inr d' \<Longrightarrow> toordinal d' = toordinal d + 1"
  by (auto simp: date_add_def timedelta_days_def fromordinal_def toordinal_ord2ymd Let_def
        split: if_splits)

lemma datetime_add_3h_total:
  assumes "valid_time (time_of dt)" "datetime_add dt (timedelta_hours 3) = Inr dt'"
  shows "toordinal (date_of dt') * 24 + hour (time_of dt') =
           toordinal (date_of dt) * 24 + hour (time_of dt) + 3"
    and "minute (time_of dt') = minute (time_of dt)"
    and "second (time_of dt') = second (time_of dt)"
    and "microsecond (time_of dt') = microsecond (time_of dt)"
proof -
  define h where "h = hour (time_of dt)"
  from assms have dt': "dt' = \<lparr>date_of = fromordinal (toordinal (date_of dt) + (h + 3) div 24),
      time_of = (time_of dt)\<lparr>hour := (h + 3) mod 24\<rparr>\<rparr>"
    by (auto simp: datetime_add_3h Let_def h_def split: if_splits)
  have "(toordinal (date_of dt) + (h + 3) div 24) * 24 + (h + 3) mod 24 =
      toordinal (date_of dt) * 24 + h + 3"
    by (simp add: algebra_simps)
  then show "toordinal (date_of dt') * 24 + hour (time_of dt') =
           toordinal (date_of dt) * 24 + hour (time_of dt) + 3"
    by (simp add: dt' fromordinal_def toordinal_ord2ymd h_def)
  show "minute (time_of dt') = minute (time_of dt)"
    "second (time_of dt') = second (time_of dt)"
    "microsecond (time_of dt') = microsecond (time_of dt)"
    by (simp_all add: dt')
qed

section \<open>Day rollover\<close>

text \<open>
  Claim C1.  For the two lines with the clock times 23:50 and 00:10 and the shift date
  2024-01-01, the first record is dated 2024-01-01 and the second 2024-01-02.  In
  general, whenever the clock time of a record is strictly less than the clock time of
  the record before it, its date is the date of that record plus
  \<open>timedelta(days=1)\<close>, the date whose ordinal is greater by one: the running date is
  advanced by exactly one calendar day.
\<close>

theorem rollover_advances_one_day:
  "parse_records
     [ustr ''23:50 - Abertura da tela de Despacho - ABC - EXCEDIDO EM: 10%'',
      ustr ''00:10 - Abertura da tela de Despacho - XYZ - EXCEDIDO EM: 25%'']
     (date_ymd 2024 1 1) =
   Inr [\<lparr>timestamp = datetime_ymdhm 2024 1 1 23 50, company = ustr ''ABC'',
          exceeded_percent = 10\<rparr>,
        \<lparr>timestamp = datetime_ymdhm 2024 1 2 0 10, company = ustr ''XYZ'',
          exceeded_percent = 25\<rparr>] \<and>
   (parse_records lines d = Inr recs \<longrightarrow> Suc i < length recs \<longrightarrow>
      time_less (rec_time (recs ! Suc i)) (rec_time (recs ! i)) \<longrightarrow>
      date_add (rec_date (recs ! i)) (timedelta_days 1) = Inr (rec_date (recs ! Suc i)) \<and>
      toordinal (rec_date (recs ! Suc i)) = toordinal (rec_date (recs ! i)) + 1)"
proof -
  have "parse_records
     [ustr ''23:50 - Abertura da tela de Despacho - ABC - EXCEDIDO EM: 10%'',
      ustr ''00:10 - Abertura da tela de Despacho - XYZ - EXCEDIDO EM: 25%'']
     (date_ymd 2024 1 1) =
   Inr [\<lparr>timestamp = datetime_ymdhm 2024 1 1 23 50, company = ustr ''ABC'',
          exceeded_percent = 10\<rparr>,
        \<lparr>timestamp = datetime_ymdhm 2024 1 2 0 10, company = ustr ''XYZ'',
          exceeded_percent = 25\<rparr>]"
    by code_simp
  moreover have "date_add (rec_date (recs ! i)) (timedelta_days 1) = Inr (rec_date (recs ! Suc i)) \<and>
      toordinal (rec_date (recs ! Suc i)) = toordinal (rec_date (recs ! i)) + 1"
    if "parse_records lines d = Inr recs" "Suc i < length recs"
      "time_less (rec_time (recs ! Suc i)) (rec_time (recs ! i))"
  proof -
    have a: "date_add (rec_date (recs ! i)) (timedelta_days 1) = Inr (rec_date (recs ! Suc i))"
      using chain_adjacent [OF parse_records_chain(1) [OF that(1)] that(2)] that(3)
      by (simp add: advance_def)
    from a date_add_one_day [OF a] show ?thesis by simp
  qed
  ultimately show ?thesis by blast
qed

theorem rollover_advances_one_day_witness:
  "parse_records
     [ustr ''22:15 - Abertura da tela de Despacho - ABC - EXCEDIDO EM: 7%'',
      ustr ''01h05 - Abertura da tela de Despacho - ABC - EXCEDIDO EM: 9%'']
     (date_ymd 2024 2 28) =
   Inr [\<lparr>timestamp = datetime_ymdhm 2024 2 28 22 15, company = ustr ''ABC'',
          exceeded_percent = 7\<rparr>,
        \<lparr>timestamp = datetime_ymdhm 2024 2 29 1 5, company = ustr ''ABC'',
          exceeded_percent = 9\<rparr>] \<and>
   Suc 0 < length [datetime_ymdhm 2024 2 28 22 15, datetime_ymdhm 2024 2 29 1 5] \<and>
   time_less (time_hm 1 5) (time_hm 22 15) \<and>
   date_add (date_ymd 2024 2 28) (timedelta_days 1) = Inr (date_ymd 2024 2 29) \<and>
   toordinal (date_ymd 2024 2 29) = toordinal (date_ymd 2024 2 28) + 1"
proof -
  let ?lines = "[ustr ''22:15 - Abertura da tela de Despacho - ABC - EXCEDIDO EM: 7%'',
      ustr ''01h05 - Abertura da tela de Despacho - ABC - EXCEDIDO EM: 9%'']"
  let ?recs = "[\<lparr>timestamp = datetime_ymdhm 2024 2 28 22 15, company = ustr ''ABC'',
          exceeded_percent = 7\<rparr>,
        \<lparr>timestamp = datetime_ymdhm 2024 2 29 1 5, company = ustr ''ABC'',
          exceeded_percent = 9\<rparr>]"
  have h1: "parse_records ?lines (date_ymd 2024 2 28) = Inr ?recs" by code_simp
  have h2: "Suc 0 < length ?recs" by simp
  have h3: "time_less (rec_time (?recs ! Suc 0)) (rec_time (?recs ! 0))" by code_simp
  have t: "time_less (time_hm 1 5) (time_hm 22 15)" by code_simp
  from rollover_advances_one_day [of ?lines "date_ymd 2024 2 28" ?recs 0,
      THEN conjunct2, rule_format, OF h1 h2 h3]
  have "date_add (date_ymd 2024 2 28) (timedelta_days 1) = Inr (date_ymd 2024 2 29) \<and>
    toordinal (date_ymd 2024 2 29) = toordinal (date_ymd 2024 2 28) + 1"
    by (simp add: rec_date_def datetime_ymdhm_def)
  with h1 t show ?thesis by simp
qed

text \<open>
  Claim C2.  When the clock times of the non-blank lines of the input are
  non-decreasing, every record carries the shift date: the date is never advanced.
\<close>

theorem nondecreasing_keeps_shift_date:
  assumes "parse_records lines d = Inr recs"
    and "successively (\<lambda>a b. \<not> time_less b a) (clock_times lines)"
  shows "\<forall>r \<in> set recs. rec_date r = d"
proof -
  note c = parse_records_chain [OF assms(1)]
  have "map rec_time recs = clock_times lines"
    using c(2) [symmetric] by (simp add: clock_times_def event_of_def comp_def)
  with assms(2) have "successively (\<lambda>a b. \<not> time_less b a) (map rec_time recs)" by simp
  from chain_nondecreasing [OF c(1) this] show ?thesis by simp
qed

theorem nondecreasing_keeps_shift_date_witness:
  "parse_records
     [ustr ''08:00 - Abertura da tela de Despacho - ABC - EXCEDIDO EM: 5%'',
      ustr '''',
      ustr ''08h00h - Abertura da tela de Despacho - DEF - EXCEDIDO EM: 12%'',
      ustr ''23:59 - Abertura da tela de Despacho - GHI - EXCEDIDO EM: 0%'']
     (date_ymd 2023 12 31) =
   Inr [\<lparr>timestamp = datetime_ymdhm 2023 12 31 8 0, company = ustr ''ABC'',
          exceeded_percent = 5\<rparr>,
        \<lparr>timestamp = datetime_ymdhm 2023 12 31 8 0, company = ustr ''DEF'',
          exceeded_percent = 12\<rparr>,
        \<lparr>timestamp = datetime_ymdhm 2023 12 31 23 59, company = ustr ''GHI'',
          exceeded_percent = 0\<rparr>] \<and>
   successively (\<lambda>a b. \<not> time_less b a)
     (clock_times
        [ustr ''08:00 - Abertura da tela de Despacho - ABC - EXCEDIDO EM: 5%'',
         ustr '''',
         ustr ''08h00h - Abertura da tela de Despacho - DEF - EXCEDIDO EM: 12%'',
         ustr ''23:59 - Abertura da tela de Despacho - GHI - EXCEDIDO EM: 0%'']) \<and>
   map rec_date
     [\<lparr>timestamp = datetime_ymdhm 2023 12 31 8 0, company = ustr ''ABC'',
        exceeded_percent = 5\<rparr>,
      \<lparr>timestamp = datetime_ymdhm 2023 12 31 8 0, company = ustr ''DEF'',
        exceeded_percent = 12\<rparr>,
      \<lparr>timestamp = datetime_ymdhm 2023 12 31 23 59, company = ustr ''GHI'',
        exceeded_percent = 0\<rparr>] =
   [date_ymd 2023 12 31, date_ymd 2023 12 31, date_ymd 2023 12 31]"
proof -
  let ?lines = "[ustr ''08:00 - Abertura da tela de Despacho - ABC - EXCEDIDO EM: 5%'',
      ustr '''',
      ustr ''08h00h - Abertura da tela de Despacho - DEF - EXCEDIDO EM: 12%'',
      ustr ''23:59 - Abertura da tela de Despacho - GHI - EXCEDIDO EM: 0%'']"
  let ?recs = "[\<lparr>timestamp = datetime_ymdhm 2023 12 31 8 0, company = ustr ''ABC'',
          exceeded_percent = 5\<rparr>,
        \<lparr>timestamp = datetime_ymdhm 2023 12 31 8 0, company = ustr ''DEF'',
          exceeded_percent = 12\<rparr>,
        \<lparr>timestamp = datetime_ymdhm 2023 12 31 23 59, company = ustr ''GHI'',
          exceeded_percent = 0\<rparr>]"
  have h1: "parse_records ?lines (date_ymd 2023 12 31) = Inr ?recs" by code_simp
  have h2: "successively (\<lambda>a b. \<not> time_less b a) (clock_times ?lines)" by code_simp
  from nondecreasing_keeps_shift_date [OF h1 h2]
  have "\<forall>r \<in> set ?recs. rec_date r = date_ymd 2023 12 31" .
  then have "map rec_date ?recs = [date_ymd 2023 12 31, date_ymd 2023 12 31, date_ymd 2023 12 31]"
    by simp
  with h1 h2 show ?thesis by blast
qed

text \<open>
  Claim C3.  Equal consecutive clock times do not trigger a rollover.  For the two lines
  with the clock times 10:00 and 10:00 both records carry the shift date; in general a
  record whose clock time equals that of the record before it has the same date: the
  comparison is strict.
\<close>

theorem tie_keeps_date:
  "parse_records
     [ustr ''10:00 - Abertura da tela de Despacho - ABC - EXCEDIDO EM: 10%'',
      ustr ''10:00 - Abertura da tela de Despacho - XYZ - EXCEDIDO EM: 25%'']
     (date_ymd 2024 1 1) =
   Inr [\<lparr>timestamp = datetime_ymdhm 2024 1 1 10 0, company = ustr ''ABC'',
          exceeded_percent = 10\<rparr>,
        \<lparr>timestamp = datetime_ymdhm 2024 1 1 10 0, company = ustr ''XYZ'',
          exceeded_percent = 25\<rparr>] \<and>
   (parse_records lines d = Inr recs \<longrightarrow> Suc i < length recs \<longrightarrow>
      rec_time (recs ! Suc i) = rec_time (recs ! i) \<longrightarrow>
      rec_date (recs ! Suc i) = rec_date (recs ! i))"
proof -
  have "parse_records
     [ustr ''10:00 - Abertura da tela de Despacho - ABC - EXCEDIDO EM: 10%'',
      ustr ''10:00 - Abertura da tela de Despacho - XYZ - EXCEDIDO EM: 25%'']
     (date_ymd 2024 1 1) =
   Inr [\<lparr>timestamp = datetime_ymdhm 2024 1 1 10 0, company = ustr ''ABC'',
          exceeded_percent = 10\<rparr>,
        \<lparr>timestamp = datetime_ymdhm 2024 1 1 10 0, company = ustr ''XYZ'',
          exceeded_percent = 25\<rparr>]"
    by code_simp
  moreover have "rec_date (recs ! Suc i) = rec_date (recs ! i)"
    if "parse_records lines d = Inr recs" "Suc i < length recs"
      "rec_time (recs ! Suc i) = rec_time (recs ! i)"
    using chain_adjacent [OF parse_records_chain(1) [OF that(1)] that(2)] that(3)
    by (simp add: advance_def time_less_def)
  ultimately show ?thesis by blast
qed

theorem tie_keeps_date_witness:
  "parse_records
     [ustr ''23:10 - Abertura da tela de Despacho - ABC - EXCEDIDO EM: 1%'',
      ustr ''07:45 - Abertura da tela de Despacho - ABC - EXCEDIDO EM: 2%'',
      ustr ''07h45 - Abertura da tela de Despacho - ABC - EXCEDIDO EM: 3%'']
     (date_ymd 2024 1 1) =
   Inr [\<lparr>timestamp = datetime_ymdhm 2024 1 1 23 10, company = ustr ''ABC'',
          exceeded_percent = 1\<rparr>,
        \<lparr>timestamp = datetime_ymdhm 2024 1 2 7 45, company = ustr ''ABC'',
          exceeded_percent = 2\<rparr>,
        \<lparr>timestamp = datetime_ymdhm 2024 1 2 7 45, company = ustr ''ABC'',
          exceeded_percent = 3\<rparr>] \<and>
   rec_time \<lparr>timestamp = datetime_ymdhm 2024 1 2 7 45, company = ustr ''ABC'',
          exceeded_percent = 3\<rparr> =
   rec_time \<lparr>timestamp = datetime_ymdhm 2024 1 2 7 45, company = ustr ''ABC'',
          exceeded_percent = 2\<rparr> \<and>
   rec_date \<lparr>timestamp = datetime_ymdhm 2024 1 2 7 45, company = ustr ''ABC'',
          exceeded_percent = 3\<rparr> =
   rec_date \<lparr>timestamp = datetime_ymdhm 2024 1 2 7 45, company = ustr ''ABC'',
          exceeded_percent = 2\<rparr>"
proof -
  let ?lines = "[ustr ''23:10 - Abertura da tela de Despacho - ABC - EXCEDIDO EM: 1%'',
      ustr ''07:45 - Abertura da tela de Despacho - ABC - EXCEDIDO EM: 2%'',
      ustr ''07h45 - Abertura da tela de Despacho - ABC - EXCEDIDO EM: 3%'']"
  let ?recs = "[\<lparr>timestamp = datetime_ymdhm 2024 1 1 23 10, company = ustr ''ABC'',
          exceeded_percent = 1\<rparr>,
        \<lparr>timestamp = datetime_ymdhm 2024 1 2 7 45, company = ustr ''ABC'',
          exceeded_percent = 2\<rparr>,
        \<lparr>timestamp = datetime_ymdhm 2024 1 2 7 45, company = ustr ''ABC'',
          exceeded_percent = 3\<rparr>]"
  have h1: "parse_records ?lines (date_ymd 2024 1 1) = Inr ?recs" by code_simp
  have h2: "Suc 1 < length ?recs" by simp
  have h3: "rec_time (?recs ! Suc 1) = rec_time (?recs ! 1)" by (simp add: rec_time_def)
  from tie_keeps_date [of ?lines "date_ymd 2024 1 1" ?recs 1,
      THEN conjunct2, rule_format, OF h1 h2 h3]
  have "rec_date (?recs ! Suc 1) = rec_date (?recs ! 1)" .
  with h1 h3 show ?thesis by simp
qed

section \<open>Order and number of the records\<close>

text \<open>
  Claim C5.  The records follow the input: an empty input gives no record; an input of
  blank lines only gives no record and no error; blank lines can be removed without
  changing the records; and when parsing succeeds the records are, in the order of the
  input, the events of its non-blank lines, one record for each.
\<close>

theorem records_follow_accepted_lines:
  "parse_records [] d = Inr [] \<and>
   ((\<forall>l \<in> set lines. py_strip l = []) \<longrightarrow> parse_records lines d = Inr []) \<and>
   ((parse_records (filter (\<lambda>l. py_strip l \<noteq> []) lines) d = Inr recs) =
    (parse_records lines d = Inr recs)) \<and>
   (parse_records lines d = Inr recs \<longrightarrow>
      map event_of recs = events_of lines \<and>
      length recs = length (filter (\<lambda>l. py_strip l \<noteq> []) lines))"
proof -
  have "parse_records [] d = Inr []" by (simp add: parse_records_def)
  moreover have "(\<forall>l \<in> set lines. py_strip l = []) \<longrightarrow> parse_records lines d = Inr []"
    by (simp add: parse_records_all_blank)
  moreover note parse_records_skip_blank [of lines d recs]
  moreover have "parse_records lines d = Inr recs \<longrightarrow>
      map event_of recs = events_of lines \<and>
      length recs = length (filter (\<lambda>l. py_strip l \<noteq> []) lines)"
    using parse_records_chain(2,3) [of lines d recs] by blast
  ultimately show ?thesis by blast
qed

theorem records_follow_accepted_lines_witness:
  "list_all (\<lambda>l. py_strip l = []) [ustr '''', [32, 9, 160, 8195]] \<and>
   parse_records [ustr '''', [32, 9, 160, 8195]] (date_ymd 2024 1 1) = Inr [] \<and>
   parse_records
     [ustr ''   '',
      ustr ''09:15 - Abertura da tela de Despacho - ABC - EXCEDIDO EM: 10%'',
      ustr '''',
      ustr ''  09h45h-Abertura da tela de Despacho-XYZ-EXCEDIDO EM:0025 %  '']
     (date_ymd 2024 1 1) =
   Inr [\<lparr>timestamp = datetime_ymdhm 2024 1 1 9 15, company = ustr ''ABC'',
          exceeded_percent = 10\<rparr>,
        \<lparr>timestamp = datetime_ymdhm 2024 1 1 9 45, company = ustr ''XYZ'',
          exceeded_percent = 25\<rparr>] \<and>
   events_of
     [ustr ''   '',
      ustr ''09:15 - Abertura da tela de Despacho - ABC - EXCEDIDO EM: 10%'',
      ustr '''',
      ustr ''  09h45h-Abertura da tela de Despacho-XYZ-EXCEDIDO EM:0025 %  ''] =
   [(time_hm 9 15, ustr ''ABC'', 10), (time_hm 9 45, ustr ''XYZ'', 25)] \<and>
   length (filter (\<lambda>l. py_strip l \<noteq> [])
     [ustr ''   '',
      ustr ''09:15 - Abertura da tela de Despacho - ABC - EXCEDIDO EM: 10%'',
      ustr '''',
      ustr ''  09h45h-Abertura da tela de Despacho-XYZ-EXCEDIDO EM:0025 %  '']) = 2"
proof -
  let ?blank = "[ustr '''', [32, 9, 160, 8195]]"
  let ?lines = "[ustr ''   '',
      ustr ''09:15 - Abertura da tela de Despacho - ABC - EXCEDIDO EM: 10%'',
      ustr '''',
      ustr ''  09h45h-Abertura da tela de Despacho-XYZ-EXCEDIDO EM:0025 %  '']"
  let ?recs = "[\<lparr>timestamp = datetime_ymdhm 2024 1 1 9 15, company = ustr ''ABC'',
          exceeded_percent = 10\<rparr>,
        \<lparr>timestamp = datetime_ymdhm 2024 1 1 9 45, company = ustr ''XYZ'',
          exceeded_percent = 25\<rparr>]"
  have b: "list_all (\<lambda>l. py_strip l = []) ?blank" by code_simp
  then have b': "\<forall>l \<in> set ?blank. py_strip l = []" by (simp only: list_all_iff)
  have h: "parse_records ?lines (date_ymd 2024 1 1) = Inr ?recs" by code_simp
  note t1 = records_follow_accepted_lines [of "date_ymd 2024 1 1" ?blank "[]"]
  note t2 = records_follow_accepted_lines [of "date_ymd 2024 1 1" ?lines ?recs]
  from t1 b' have e: "parse_records ?blank (date_ymd 2024 1 1) = Inr []" by blast
  from t2 h have m: "map event_of ?recs = events_of ?lines"
    and l: "length ?recs = length (filter (\<lambda>l. py_strip l \<noteq> []) ?lines)" by blast+
  have "map event_of ?recs = [(time_hm 9 15, ustr ''ABC'', 10), (time_hm 9 45, ustr ''XYZ'', 25)]"
    by (simp add: event_of_def rec_time_def datetime_ymdhm_def)
  with m have m': "events_of ?lines =
      [(time_hm 9 15, ustr ''ABC'', 10), (time_hm 9 45, ustr ''XYZ'', 25)]" by simp
  from l have l': "length (filter (\<lambda>l. py_strip l \<noteq> []) ?lines) = 2" by simp
  from b e h m' l' show ?thesis by blast
qed

section \<open>Clock normalisation\<close>

text \<open>
  Claim C6.  The forms \<open>08h30h\<close>, \<open>08h30\<close> and \<open>08:30\<close> normalise to the same text, which
  is read as the clock time 08:30; for any four decimal digits the forms with separator
  \<open>h\<close> or \<open>:\<close>, with or without a trailing \<open>h\<close>, normalise to the form with \<open>:\<close>.  A clock
  whose normal form (trimmed, lower case, without a trailing \<open>h\<close>, every \<open>h\<close> replaced by
  \<open>:\<close>) is not two digits, a colon and two digits raises the \<open>ParseError\<close> with the
  invalid-clock message, which carries the clock as it was given; any other clock is
  returned in normal form.
\<close>

theorem normalize_clock_forms:
  "normalize_clock (ustr ''08h30h'') = Inr (ustr ''08:30'') \<and>
   normalize_clock (ustr ''08h30'') = Inr (ustr ''08:30'') \<and>
   normalize_clock (ustr ''08:30'') = Inr (ustr ''08:30'') \<and>
   strptime_HM (ustr ''08:30'') = Inr (time_hm 8 30) \<and>
   (py_isdecimal a \<and> py_isdecimal b \<and> py_isdecimal c \<and> py_isdecimal e \<longrightarrow>
      normalize_clock [a, b, 104, c, e, 104] = Inr [a, b, 58, c, e] \<and>
      normalize_clock [a, b, 104, c, e] = Inr [a, b, 58, c, e] \<and>
      normalize_clock [a, b, 58, c, e, 104] = Inr [a, b, 58, c, e] \<and>
      normalize_clock [a, b, 58, c, e] = Inr [a, b, 58, c, e]) \<and>
   (\<not> is_hhmm (normal_form clock) \<longrightarrow>
      normalize_clock clock = Inl (ParseError (Horario_invalido clock))) \<and>
   (is_hhmm (normal_form clock) \<longrightarrow> normalize_clock clock = Inr (normal_form clock))"
proof -
  have "normalize_clock (ustr ''08h30h'') = Inr (ustr ''08:30'')"
    "normalize_clock (ustr ''08h30'') = Inr (ustr ''08:30'')"
    "normalize_clock (ustr ''08:30'') = Inr (ustr ''08:30'')"
    "strptime_HM (ustr ''08:30'') = Inr (time_hm 8 30)"
    by code_simp+
  moreover note normalize_clock_digits [of a b c e] normalize_clock_eq [of clock]
  ultimately show ?thesis by simp
qed

theorem normalize_clock_forms_witness:
  "py_isdecimal 49 \<and> py_isdecimal 1639 \<and> py_isdecimal 48 \<and> py_isdecimal 53 \<and>
   normalize_clock [49, 1639, 104, 48, 53, 104] = Inr [49, 1639, 58, 48, 53] \<and>
   normalize_clock [49, 1639, 104, 48, 53] = Inr [49, 1639, 58, 48, 53] \<and>
   normalize_clock [49, 1639, 58, 48, 53, 104] = Inr [49, 1639, 58, 48, 53] \<and>
   normalize_clock [49, 1639, 58, 48, 53] = Inr [49, 1639, 58, 48, 53] \<and>
   \<not> is_hhmm (normal_form (ustr ''8:30'')) \<and>
   normalize_clock (ustr ''8:30'') = Inl (ParseError (Horario_invalido (ustr ''8:30''))) \<and>
   is_hhmm (normal_form (ustr '' 12H34H '')) \<and>
   normalize_clock (ustr '' 12H34H '') = Inr (ustr ''12:34'')"
proof -
  have d: "py_isdecimal 49 \<and> py_isdecimal 1639 \<and> py_isdecimal 48 \<and> py_isdecimal 53"
    by code_simp
  have n: "\<not> is_hhmm (normal_form (ustr ''8:30''))" by code_simp
  have y: "is_hhmm (normal_form (ustr '' 12H34H ''))" by code_simp
  have nf: "normal_form (ustr '' 12H34H '') = ustr ''12:34''" by code_simp
  from normalize_clock_forms [of 49 1639 48 53 "ustr ''8:30''"] d n
  have 1: "normalize_clock [49, 1639, 104, 48, 53, 104] = Inr [49, 1639, 58, 48, 53]"
    "normalize_clock [49, 1639, 104, 48, 53] = Inr [49, 1639, 58, 48, 53]"
    "normalize_clock [49, 1639, 58, 48, 53, 104] = Inr [49, 1639, 58, 48, 53]"
    "normalize_clock [49, 1639, 58, 48, 53] = Inr [49, 1639, 58, 48, 53]"
    "normalize_clock (ustr ''8:30'') = Inl (ParseError (Horario_invalido (ustr ''8:30'')))"
    by blast+
  from normalize_clock_forms [of 49 1639 48 53 "ustr '' 12H34H ''"] y nf
  have 2: "normalize_clock (ustr '' 12H34H '') = Inr (ustr ''12:34'')" by simp
  from d n y 1 2 show ?thesis by blast
qed

text \<open>
  Claim C8.  Normalisation checks the shape of the clock only, not the range of its
  numbers: \<open>25:00\<close> passes unchanged, and so does every clock made of a two-digit hour
  field from 00 to 99, a colon and a two-digit minute field from 00 to 99.
\<close>

theorem normalize_clock_shape_only:
  "normalize_clock (ustr ''25:00'') = Inr (ustr ''25:00'') \<and>
   (0 \<le> hh \<and> hh < 100 \<and> 0 \<le> mm \<and> mm < 100 \<longrightarrow>
      normalize_clock (digits2 hh @ [58] @ digits2 mm) = Inr (digits2 hh @ [58] @ digits2 mm))"
proof -
  have "normalize_clock (ustr ''25:00'') = Inr (ustr ''25:00'')" by code_simp
  then show ?thesis using normalize_two_digit_fields [of hh mm] by blast
qed

theorem normalize_clock_shape_only_witness:
  "(0::int) \<le> 99 \<and> (99::int) < 100 \<and> (0::int) \<le> 75 \<and> (75::int) < 100 \<and>
   normalize_clock (ustr ''99:75'') = Inr (ustr ''99:75'')"
proof -
  have h: "(0::int) \<le> 99 \<and> (99::int) < 100 \<and> (0::int) \<le> 75 \<and> (75::int) < 100" by simp
  have e: "digits2 99 @ [58] @ digits2 75 = ustr ''99:75''" by code_simp
  from normalize_clock_shape_only [of 99 75] h
  have "normalize_clock (digits2 99 @ [58] @ digits2 75) = Inr (digits2 99 @ [58] @ digits2 75)"
    by blast
  then have "normalize_clock (ustr ''99:75'') = Inr (ustr ''99:75'')" by (simp only: e)
  with h show ?thesis by blast
qed

section \<open>The adjusted timestamp\<close>

text \<open>
  Claim C7.  The adjusted timestamp is the timestamp plus three hours, written to the
  minute with the suffix \<open>Z\<close>: the timestamp 2024-01-01T23:50 gives \<open>2024-01-02T02:50Z\<close>.
  In general, for a timestamp with a valid time of day, the hour is advanced by three
  modulo 24, the date by the day carried, the minute is kept, the seconds and
  microseconds are not written, and the text ends with \<open>Z\<close>; only a date carried past
  9999-12-31 raises \<open>OverflowError\<close>.  The text is spelled out for adjusted dates from the
  year 1000 on, where the year has four digits.  Counted in hours since day 0, the
  adjusted timestamp is the timestamp plus exactly 3, with the same minute.
\<close>

theorem adjusted_iso_plus_three_hours:
  "adjusted_iso \<lparr>timestamp = datetime_ymdhm 2024 1 1 23 50, company = c, exceeded_percent = p\<rparr>
     = Inr (ustr ''2024-01-02T02:50Z'') \<and>
   (valid_time (rec_time r) \<and>
    1000 \<le> year (fromordinal (toordinal (rec_date r) + (hour (rec_time r) + 3) div 24)) \<longrightarrow>
      adjusted_iso r =
        (let ordinal = toordinal (rec_date r) + (hour (rec_time r) + 3) div 24
         in if 0 < ordinal \<and> ordinal \<le> MAXORDINAL
            then Inr (digits4 (year (fromordinal ordinal)) @ [45] @
                      digits2 (month (fromordinal ordinal)) @ [45] @
                      digits2 (day (fromordinal ordinal)) @ [84] @
                      digits2 ((hour (rec_time r) + 3) mod 24) @ [58] @
                      digits2 (minute (rec_time r)) @ [90])
            else Inl OverflowError)) \<and>
   (valid_time (rec_time r) \<and> datetime_add (timestamp r) (timedelta_hours 3) = Inr adjusted \<longrightarrow>
      adjusted_iso r = Inr (strftime_iso_minute_Z adjusted) \<and>
      toordinal (date_of adjusted) * 24 + hour (time_of adjusted) =
        toordinal (rec_date r) * 24 + hour (rec_time r) + 3 \<and>
      minute (time_of adjusted) = minute (rec_time r))"
proof -
  have "adjusted_iso \<lparr>timestamp = datetime_ymdhm 2024 1 1 23 50, company = c, exceeded_percent = p\<rparr>
     = Inr (ustr ''2024-01-02T02:50Z'')"
    by code_simp
  moreover have "adjusted_iso r =
        (let ordinal = toordinal (rec_date r) + (hour (rec_time r) + 3) div 24
         in if 0 < ordinal \<and> ordinal \<le> MAXORDINAL
            then Inr (digits4 (year (fromordinal ordinal)) @ [45] @
                      digits2 (month (fromordinal ordinal)) @ [45] @
                      digits2 (day (fromordinal ordinal)) @ [84] @
                      digits2 ((hour (rec_time r) + 3) mod 24) @ [58] @
                      digits2 (minute (rec_time r)) @ [90])
            else Inl OverflowError)"
    if "valid_time (rec_time r)"
      "1000 \<le> year (fromordinal (toordinal (rec_date r) + (hour (rec_time r) + 3) div 24))"
  proof -
    from that(2) have "strftime_Y (year (fromordinal (toordinal (rec_date r) +
        (hour (rec_time r) + 3) div 24))) =
      digits4 (year (fromordinal (toordinal (rec_date r) + (hour (rec_time r) + 3) div 24)))"
      by (simp add: strftime_Y_def)
    then show ?thesis by (simp add: adjusted_iso_eq [OF that(1)] Let_def)
  qed
  moreover have "adjusted_iso r = Inr (strftime_iso_minute_Z adjusted) \<and>
      toordinal (date_of adjusted) * 24 + hour (time_of adjusted) =
        toordinal (rec_date r) * 24 + hour (rec_time r) + 3 \<and>
      minute (time_of adjusted) = minute (rec_time r)"
    if "valid_time (rec_time r)" "datetime_add (timestamp r) (timedelta_hours 3) = Inr adjusted"
    using datetime_add_3h_total(1,2) [OF that(1) [unfolded rec_time_def] that(2)] that(2)
    by (simp add: adjusted_iso_def rec_time_def rec_date_def)
  ultimately show ?thesis by blast
qed

theorem adjusted_iso_plus_three_hours_witness:
  "valid_time \<lparr>hour = 21, minute = 7, second = 59, microsecond = 999999\<rparr> \<and>
   (1000::int) \<le> year (fromordinal (toordinal (date_ymd 2024 2 28) + (21 + 3) div 24)) \<and>
   datetime_add
     \<lparr>date_of = date_ymd 2024 2 28,
       time_of = \<lparr>hour = 21, minute = 7, second = 59, microsecond = 999999\<rparr>\<rparr>
     (timedelta_hours 3) =
   Inr \<lparr>date_of = date_ymd 2024 2 29,
         time_of = \<lparr>hour = 0, minute = 7, second = 59, microsecond = 999999\<rparr>\<rparr> \<and>
   adjusted_iso
     \<lparr>timestamp = \<lparr>date_of = date_ymd 2024 2 28,
                    time_of = \<lparr>hour = 21, minute = 7, second = 59, microsecond = 999999\<rparr>\<rparr>,
      company = ustr ''ABC'', exceeded_percent = 3\<rparr> = Inr (ustr ''2024-02-29T00:07Z'') \<and>
   toordinal (date_ymd 2024 2 29) * 24 + 0 = toordinal (date_ymd 2024 2 28) * 24 + 21 + 3"
proof -
  let ?t = "\<lparr>hour = 21, minute = 7, second = 59, microsecond = 999999\<rparr>"
  let ?r = "\<lparr>timestamp = \<lparr>date_of = date_ymd 2024 2 28, time_of = ?t\<rparr>,
      company = ustr ''ABC'', exceeded_percent = 3\<rparr>"
  let ?a = "\<lparr>date_of = date_ymd 2024 2 29,
         time_of = \<lparr>hour = 0, minute = 7, second = 59, microsecond = 999999\<rparr>\<rparr>"
  have v: "valid_time ?t" by code_simp
  then have v': "valid_time (rec_time ?r)" by (simp add: rec_time_def)
  have y: "(1000::int) \<le> year (fromordinal (toordinal (date_ymd 2024 2 28) + (21 + 3) div 24))"
    by code_simp
  then have y': "1000 \<le> year (fromordinal (toordinal (rec_date ?r) +
      (hour (rec_time ?r) + 3) div 24))"
    by (simp add: rec_date_def rec_time_def)
  have a: "datetime_add \<lparr>date_of = date_ymd 2024 2 28, time_of = ?t\<rparr> (timedelta_hours 3) = Inr ?a"
    by code_simp
  then have a': "datetime_add (timestamp ?r) (timedelta_hours 3) = Inr ?a" by simp
  have s: "strftime_iso_minute_Z ?a = ustr ''2024-02-29T00:07Z''" by code_simp
  have e: "(let ordinal = toordinal (rec_date ?r) + (hour (rec_time ?r) + 3) div 24
         in if 0 < ordinal \<and> ordinal \<le> MAXORDINAL
            then Inr (digits4 (year (fromordinal ordinal)) @ [45] @
                      digits2 (month (fromordinal ordinal)) @ [45] @
                      digits2 (day (fromordinal ordinal)) @ [84] @
                      digits2 ((hour (rec_time ?r) + 3) mod 24) @ [58] @
                      digits2 (minute (rec_time ?r)) @ [90])
            else Inl OverflowError) = Inr (ustr ''2024-02-29T00:07Z'')"
    by code_simp
  note t = adjusted_iso_plus_three_hours [of "[]" 0 ?r ?a]
  from t v' y' have "adjusted_iso ?r = Inr (ustr ''2024-02-29T00:07Z'')"
    unfolding e by blast
  moreover from t v' a'
  have "toordinal (date_of ?a) * 24 + hour (time_of ?a) =
        toordinal (rec_date ?r) * 24 + hour (rec_time ?r) + 3"
    by blast
  then have "toordinal (date_ymd 2024 2 29) * 24 + 0 = toordinal (date_ymd 2024 2 28) * 24 + 21 + 3"
    by (simp add: rec_date_def rec_time_def)
  ultimately show ?thesis using v y a by blast
qed

section \<open>Lines that are not accepted\<close>

lemma loop_body_no_match:
  "py_strip raw \<noteq> [] \<Longrightarrow> re_match LOG_PATTERN (py_strip raw) = None \<Longrightarrow>
     loop_body n raw st = Inl (ParseError (Linha_nao_corresponde n raw))"
  by (simp add: loop_body_def)

lemma parse_loop_first_error:
  "k < length lines \<Longrightarrow> parse_loop n (take k lines) st = Inr out \<Longrightarrow>
     (\<And>st'. loop_body (n + k) (lines ! k) st' = Inl e) \<Longrightarrow>
     parse_loop n lines st = Inl e"
proof (induction lines arbitrary: n st k)
  case Nil
  then show ?case by simp
next
  case (Cons raw rest)
  show ?case
  proof (cases k)
    case 0
    with Cons.prems(3) [of st] show ?thesis by simp
  next
    case (Suc j)
    with Cons.prems(2) obtain st' where b: "loop_body n raw st = Inr st'"
      and l: "parse_loop (Suc n) (take j rest) st' = Inr out"
      by (auto split: sum.splits)
    from Cons.prems(1) Suc have j: "j < length rest" by simp
    have "parse_loop (Suc n) rest st' = Inl e"
      using Cons.IH [OF j l] Cons.prems(3) Suc by simp
    with b show ?thesis by simp
  qed
qed

lemma parse_loop_some_error:
  "k < length lines \<Longrightarrow> (\<And>m st'. \<exists>e. loop_body m (lines ! k) st' = Inl e) \<Longrightarrow>
     \<exists>e. parse_loop n lines st = Inl e"
proof (induction lines arbitrary: n st k)
  case Nil
  then show ?case by simp
next
  case (Cons raw rest)
  show ?case
  proof (cases k)
    case 0
    with Cons.prems(2) [of n st] show ?thesis by auto
  next
    case (Suc j)
    show ?thesis
    proof (cases "loop_body n raw st")
      case (Inl e)
      then show ?thesis by simp
    next
      case (Inr st')
      from Cons.prems(1) Suc have j: "j < length rest" by simp
      have "\<exists>e. parse_loop (Suc n) rest st' = Inl e"
        using Cons.IH [OF j] Cons.prems(2) Suc by simp
      with Inr show ?thesis by simp
    qed
  qed
qed

text \<open>
  Claim C4 (corrected).  An input that contains a non-blank line that does not match the
  grammar never yields records: parsing raises.  The exception is the \<open>ParseError\<close> that
  carries the 1-based number and the raw text of that line whenever the lines before it
  are parsed without an exception; a line before it may raise first, and not always a
  \<open>ParseError\<close>.  The single line \<open>Despacho iniciado\<close> raises the error for line 1.
\<close>

theorem unmatched_line_aborts:
  "parse_records [ustr ''Despacho iniciado''] d =
     Inl (ParseError (Linha_nao_corresponde 1 (ustr ''Despacho iniciado''))) \<and>
   (k < length lines \<and> py_strip (lines ! k) \<noteq> [] \<and>
    re_match LOG_PATTERN (py_strip (lines ! k)) = None \<longrightarrow>
      (\<exists>e. parse_records lines d = Inl e) \<and>
      ((\<exists>recs. parse_records (take k lines) d = Inr recs) \<longrightarrow>
         parse_records lines d = Inl (ParseError (Linha_nao_corresponde (Suc k) (lines ! k)))))"
proof -
  have s: "py_strip (ustr ''Despacho iniciado'') \<noteq> []"
    and m: "re_match LOG_PATTERN (py_strip (ustr ''Despacho iniciado'')) = None"
    by code_simp+
  have 1: "parse_records [ustr ''Despacho iniciado''] d =
     Inl (ParseError (Linha_nao_corresponde 1 (ustr ''Despacho iniciado'')))"
    by (simp add: parse_records_def loop_body_no_match [OF s m])
  have 2: "\<exists>e. parse_records lines d = Inl e"
    if "k < length lines" "py_strip (lines ! k) \<noteq> []"
      "re_match LOG_PATTERN (py_strip (lines ! k)) = None"
    unfolding parse_records_def
    using parse_loop_some_error [OF that(1)] loop_body_no_match [OF that(2,3)] by blast
  have 3: "parse_records lines d = Inl (ParseError (Linha_nao_corresponde (Suc k) (lines ! k)))"
    if "k < length lines" "py_strip (lines ! k) \<noteq> []"
      "re_match LOG_PATTERN (py_strip (lines ! k)) = None"
      "parse_records (take k lines) d = Inr recs" for recs
    unfolding parse_records_def
    using parse_loop_first_error [OF that(1) that(4) [unfolded parse_records_def]]
      loop_body_no_match [OF that(2,3)] by simp
  from 1 2 3 show ?thesis by blast
qed

theorem unmatched_line_aborts_witness:
  "Suc 1 < length
     [ustr ''23:50 - Abertura da tela de Despacho - ABC - EXCEDIDO EM: 10%'', ustr '' '',
      ustr ''23:55 Abertura da tela de Despacho - ABC - EXCEDIDO EM: 10%''] \<and>
   py_strip (ustr ''23:55 Abertura da tela de Despacho - ABC - EXCEDIDO EM: 10%'') \<noteq> [] \<and>
   re_match LOG_PATTERN
     (py_strip (ustr ''23:55 Abertura da tela de Despacho - ABC - EXCEDIDO EM: 10%'')) = None \<and>
   parse_records
     [ustr ''23:50 - Abertura da tela de Despacho - ABC - EXCEDIDO EM: 10%'', ustr '' '']
     (date_ymd 2024 1 1) =
   Inr [\<lparr>timestamp = datetime_ymdhm 2024 1 1 23 50, company = ustr ''ABC'',
          exceeded_percent = 10\<rparr>] \<and>
   parse_records
     [ustr ''23:50 - Abertura da tela de Despacho - ABC - EXCEDIDO EM: 10%'', ustr '' '',
      ustr ''23:55 Abertura da tela de Despacho - ABC - EXCEDIDO EM: 10%'']
     (date_ymd 2024 1 1) =
   Inl (ParseError (Linha_nao_corresponde 3
     (ustr ''23:55 Abertura da tela de Despacho - ABC - EXCEDIDO EM: 10%'')))"
proof -
  let ?bad = "ustr ''23:55 Abertura da tela de Despacho - ABC - EXCEDIDO EM: 10%''"
  let ?pre = "[ustr ''23:50 - Abertura da tela de Despacho - ABC - EXCEDIDO EM: 10%'', ustr '' '']"
  let ?lines = "?pre @ [?bad]"
  let ?recs = "[\<lparr>timestamp = datetime_ymdhm 2024 1 1 23 50, company = ustr ''ABC'',
          exceeded_percent = 10\<rparr>]"
  have k: "Suc 1 < length ?lines" by simp
  have s: "py_strip ?bad \<noteq> []" and m: "re_match LOG_PATTERN (py_strip ?bad) = None"
    by code_simp+
  have p: "parse_records ?pre (date_ymd 2024 1 1) = Inr ?recs" by code_simp
  have "parse_records ?lines (date_ymd 2024 1 1) =
      Inl (ParseError (Linha_nao_corresponde (Suc (Suc 1)) (?lines ! Suc 1)))"
    using unmatched_line_aborts [of "date_ymd 2024 1 1" "Suc 1" ?lines] k s m p by auto
  then have "parse_records ?lines (date_ymd 2024 1 1) =
      Inl (ParseError (Linha_nao_corresponde 3 ?bad))" by simp
  with k s m p show ?thesis by simp
qed

theorem unmatched_line_after_bad_clock:
  "py_strip (ustr ''Despacho iniciado'') \<noteq> [] \<and>
   re_match LOG_PATTERN (py_strip (ustr ''Despacho iniciado'')) = None \<and>
   parse_records
     [ustr ''25:00 - Abertura da tela de Despacho - ABC - EXCEDIDO EM: 10 %'',
      ustr ''Despacho iniciado'']
     (date_ymd 2024 1 1) = Inl ValueError"
  by code_simp

lemma py_int_error: "py_int s = Inl e \<Longrightarrow> e = ValueError"
  by (auto simp: py_int_def split: if_splits)

lemma py_int_two:
  "py_int [a, b] = Inr h \<Longrightarrow>
     \<exists>va vb. py_decimal a = Some va \<and> py_decimal b = Some vb \<and> h = 10 * va + vb"
  by (auto simp: py_int_def py_isdecimal_def int_max_str_digits_def split: if_splits)

lemma is_hhmm_cases:
  assumes "is_hhmm s"
  obtains a b c e where "s = [a, b, 58, c, e]"
    "py_isdecimal a" "py_isdecimal b" "py_isdecimal c" "py_isdecimal e"
  using assms by (auto simp: is_hhmm_def split: list.splits)

lemma rmatch_FORMAT_HM:
  assumes "py_isdecimal a" "py_isdecimal b" "py_isdecimal c" "py_isdecimal e"
  shows "rmatch FORMAT_HM (0, [a, b, 58, c, e], []) =
     (if (a = 50 \<and> 48 \<le> b \<and> b \<le> 51) \<or> (48 \<le> a \<and> a \<le> 49)
      then (if 48 \<le> c \<and> c \<le> 53
            then [(5, [], [(''H'', [a, b]), (''M'', [c, e])]),
                  (4, [e], [(''H'', [a, b]), (''M'', [c])])]
            else [(4, [e], [(''H'', [a, b]), (''M'', [c])])])
      else [])"
  using assms decimal_plain(4) [OF assms(2)]
  by (auto simp: FORMAT_HM_def seqs_def)

lemma strptime_HM_hhmm:
  assumes "py_isdecimal a" "py_isdecimal b" "py_isdecimal c" "py_isdecimal e"
  shows "strptime_HM [a, b, 58, c, e] =
     (if ((a = 50 \<and> 48 \<le> b \<and> b \<le> 51) \<or> (48 \<le> a \<and> a \<le> 49)) \<and> 48 \<le> c \<and> c \<le> 53
      then (case (py_int [a, b], py_int [c, e]) of
              (Inr h, Inr m) \<Rightarrow> Inr \<lparr>hour = h, minute = m, second = 0, microsecond = 0\<rparr>
            | _ \<Rightarrow> Inl ValueError)
      else Inl ValueError)"
proof -
  have va: "48 \<le> a \<and> a \<le> 50 \<Longrightarrow> py_decimal a = Some (a - 48)"
    and vb: "48 \<le> b \<and> b \<le> 51 \<Longrightarrow> py_decimal b = Some (b - 48)"
    and vc: "48 \<le> c \<and> c \<le> 53 \<Longrightarrow> py_decimal c = Some (c - 48)"
    by (simp_all add: py_decimal_ascii)
  obtain wb we where wb: "py_decimal b = Some wb" and we: "py_decimal e = Some we"
    using assms by (auto simp: py_isdecimal_def)
  note rb = py_decimal_range [OF wb] and re = py_decimal_range [OF we]
  show ?thesis
    using assms va vb vc wb we rb re
    by (auto simp: strptime_HM_def re_match_def rmatch_FORMAT_HM group_def py_int_def
          int_max_str_digits_def py_isdecimal_def)
qed

lemma strptime_out_of_range:
  assumes "is_hhmm nc" "py_int (take 2 nc) = Inr h" "py_int (drop 3 nc) = Inr mi"
    "23 < h \<or> 59 < mi"
  shows "strptime_HM nc = Inl ValueError"
proof -
  from assms(1) obtain a b c e where nc: "nc = [a, b, 58, c, e]"
    and d: "py_isdecimal a" "py_isdecimal b" "py_isdecimal c" "py_isdecimal e"
    by (rule is_hhmm_cases)
  from assms(2) nc obtain va vb where v1: "py_decimal a = Some va" "py_decimal b = Some vb"
    "h = 10 * va + vb" using py_int_two [of a b h] by auto
  from assms(3) nc obtain vc ve where v2: "py_decimal c = Some vc" "py_decimal e = Some ve"
    "mi = 10 * vc + ve" using py_int_two [of c e mi] by auto
  note r = py_decimal_range [OF v1(2)] py_decimal_range [OF v2(2)]
  have "\<not> (((a = 50 \<and> 48 \<le> b \<and> b \<le> 51) \<or> (48 \<le> a \<and> a \<le> 49)) \<and> 48 \<le> c \<and> c \<le> 53)"
  proof
    assume A: "((a = 50 \<and> 48 \<le> b \<and> b \<le> 51) \<or> (48 \<le> a \<and> a \<le> 49)) \<and> 48 \<le> c \<and> c \<le> 53"
    then have "vc = c - 48" using v2(1) by (simp add: py_decimal_ascii)
    with A r v2(3) have m: "mi \<le> 59" by simp
    from A have "h \<le> 23"
    proof (elim conjE disjE)
      assume "a = 50" "48 \<le> b" "b \<le> 51"
      then have "va = 2" "vb = b - 48" using v1(1,2) by (simp_all add: py_decimal_ascii)
      with \<open>b \<le> 51\<close> v1(3) show ?thesis by simp
    next
      assume "48 \<le> a" "a \<le> 49"
      then have "va = a - 48" using v1(1) by (simp add: py_decimal_ascii)
      with \<open>a \<le> 49\<close> r v1(3) show ?thesis by simp
    qed
    with m assms(4) show False by simp
  qed
  then show ?thesis unfolding nc strptime_HM_hhmm [OF d] by (rule if_not_P)
qed

lemma loop_body_out_of_range:
  assumes "re_match LOG_PATTERN (py_strip raw) = Some m"
    and "normalize_clock (group m ''clock'') = Inr nc"
    and "py_int (take 2 nc) = Inr h" "py_int (drop 3 nc) = Inr mi" "23 < h \<or> 59 < mi"
  shows "strptime_HM nc = Inl ValueError" and "loop_body n raw st = Inl ValueError"
proof -
  have nb: "py_strip raw \<noteq> []"
  proof
    assume "py_strip raw = []"
    moreover have "re_match LOG_PATTERN [] = None" by code_simp
    ultimately show False using assms(1) by simp
  qed
  from assms(2) have "is_hhmm nc"
    by (auto simp: normalize_clock_eq split: if_splits)
  from strptime_out_of_range [OF this assms(3-5)]
  show s: "strptime_HM nc = Inl ValueError" .
  show "loop_body n raw st = Inl ValueError"
    using nb assms(1,2) s
    by (auto simp: loop_body_def Let_def split: sum.splits dest: py_int_error)
qed

text \<open>
  Claim C9.  A line that matches the grammar and whose normalised clock, of the shape
  \<open>dd:dd\<close>, has an hour above 23 or a minute above 59 is neither accepted nor rejected
  with a \<open>ParseError\<close>: \<open>strptime\<close> raises a plain \<open>ValueError\<close> on the normalised clock,
  the loop body raises it, and the run is aborted with it (when the lines before that
  line are parsed without an exception).
\<close>

theorem out_of_range_clock_raises_ValueError:
  assumes "k < length lines"
    and "re_match LOG_PATTERN (py_strip (lines ! k)) = Some m"
    and "normalize_clock (group m ''clock'') = Inr nc"
    and "py_int (take 2 nc) = Inr h" "py_int (drop 3 nc) = Inr mi" "23 < h \<or> 59 < mi"
    and "parse_records (take k lines) d = Inr recs"
  shows "strptime_HM nc = Inl ValueError \<and>
         loop_body n (lines ! k) st = Inl ValueError \<and>
         parse_records [lines ! k] d = Inl ValueError \<and>
         parse_records lines d = Inl ValueError"
proof -
  note b = loop_body_out_of_range [OF assms(2-6)]
  have "parse_records lines d = Inl ValueError"
    unfolding parse_records_def
    using parse_loop_first_error [OF assms(1) assms(7) [unfolded parse_records_def]] b(2)
    by simp
  moreover have "parse_records [lines ! k] d = Inl ValueError"
    by (simp add: parse_records_def b(2))
  ultimately show ?thesis using b by simp
qed

theorem out_of_range_clock_raises_ValueError_witness:
  "Suc 0 < length
     [ustr ''23:50 - Abertura da tela de Despacho - ABC - EXCEDIDO EM: 10%'',
      ustr ''25:00 - Abertura da tela de Despacho - ABC - EXCEDIDO EM: 10 %''] \<and>
   re_match LOG_PATTERN
     (py_strip (ustr ''25:00 - Abertura da tela de Despacho - ABC - EXCEDIDO EM: 10 %'')) =
     Some \<lparr>m_end = 62, m_groups = [(''clock'', ustr ''25:00''), (''company'', ustr ''ABC''),
                                   (''percent'', ustr ''10'')]\<rparr> \<and>
   normalize_clock (ustr ''25:00'') = Inr (ustr ''25:00'') \<and>
   py_int (take 2 (ustr ''25:00'')) = Inr 25 \<and> py_int (drop 3 (ustr ''25:00'')) = Inr 0 \<and>
   (23::int) < 25 \<and>
   parse_records [ustr ''23:50 - Abertura da tela de Despacho - ABC - EXCEDIDO EM: 10%'']
     (date_ymd 2024 1 1) =
   Inr [\<lparr>timestamp = datetime_ymdhm 2024 1 1 23 50, company = ustr ''ABC'',
          exceeded_percent = 10\<rparr>] \<and>
   strptime_HM (ustr ''25:00'') = Inl ValueError \<and>
   parse_records [ustr ''25:00 - Abertura da tela de Despacho - ABC - EXCEDIDO EM: 10 %'']
     (date_ymd 2024 1 1) = Inl ValueError \<and>
   parse_records
     [ustr ''23:50 - Abertura da tela de Despacho - ABC - EXCEDIDO EM: 10%'',
      ustr ''25:00 - Abertura da tela de Despacho - ABC - EXCEDIDO EM: 10 %'']
     (date_ymd 2024 1 1) = Inl ValueError"
proof -
  let ?ok = "ustr ''23:50 - Abertura da tela de Despacho - ABC - EXCEDIDO EM: 10%''"
  let ?bad = "ustr ''25:00 - Abertura da tela de Despacho - ABC - EXCEDIDO EM: 10 %''"
  let ?m = "\<lparr>m_end = 62, m_groups = [(''clock'', ustr ''25:00''), (''company'', ustr ''ABC''),
                                   (''percent'', ustr ''10'')]\<rparr>"
  let ?recs = "[\<lparr>timestamp = datetime_ymdhm 2024 1 1 23 50, company = ustr ''ABC'',
          exceeded_percent = 10\<rparr>]"
  have k: "Suc 0 < length [?ok, ?bad]" by simp
  have m: "re_match LOG_PATTERN (py_strip ?bad) = Some ?m" by code_simp
  have g: "group ?m ''clock'' = ustr ''25:00''" by code_simp
  have n: "normalize_clock (ustr ''25:00'') = Inr (ustr ''25:00'')" by code_simp
  have h: "py_int (take 2 (ustr ''25:00'')) = Inr 25"
    and mi: "py_int (drop 3 (ustr ''25:00'')) = Inr 0" by code_simp+
  have r: "(23::int) < 25" by simp
  have p: "parse_records [?ok] (date_ymd 2024 1 1) = Inr ?recs" by code_simp
  have "strptime_HM (ustr ''25:00'') = Inl ValueError \<and>
        loop_body 0 ([?ok, ?bad] ! Suc 0)
          \<lparr>records = [], current_date = date_ymd 2024 1 1, previous_clock = None\<rparr> =
          Inl ValueError \<and>
        parse_records [[?ok, ?bad] ! Suc 0] (date_ymd 2024 1 1) = Inl ValueError \<and>
        parse_records [?ok, ?bad] (date_ymd 2024 1 1) = Inl ValueError"
    by (rule out_of_range_clock_raises_ValueError [where k = "Suc 0" and m = ?m and h = 25
          and mi = 0 and recs = ?recs])
       (use k m g n h mi r p in simp_all)
  with k m n h mi r p show ?thesis by simp
qed

section \<open>Lines with the same content\<close>





















end
